theory Spec2Isabelle
  imports Main "HOL-Library.Word"
begin

section \<open>The outbound record path of s2n: \<open>s2n_flush\<close>, \<open>adjust_record_size_if_needed\<close>, \<open>s2n_send\<close>\<close>

text \<open>
  The three functions of the send path are embedded as HOL functions over an explicit
  connection state and an explicit world (the transport behind \<^verbatim>\<open>conn->writefd\<close>, the
  monotonic clock, and a trace of what happened). The functions they call (stuffer,
  record writer, timer, connection wipe) live in files that are not part of the sources
  at hand: the stuffer and the timer are modelled from the specification, every other
  collaborator is a field of the environment record \<open>env\<close> and is left arbitrary.
\<close>

subsection \<open>Data\<close>

type_synonym byte = "8 word"

text \<open>\<^verbatim>\<open>struct s2n_dyn_record_size_config\<close> and the one field of \<^verbatim>\<open>struct s2n_config\<close> that the
  send path reads.\<close>

record s2n_dyn_record_size_config =
  bytes_out_threshold :: "32 word"
  idle_millis_threshold :: "32 word"
  max_fragment_size :: "16 word"

record s2n_config =
  dyn_record_size :: s2n_dyn_record_size_config

text \<open>The values of \<^verbatim>\<open>s2n_errno\<close> that the code tests or sets by name; \<open>S2N_ERR_OTHER\<close> stands
  for every other value.\<close>

datatype s2n_error = S2N_ERR_CLOSED | S2N_ERR_REALLOC | S2N_ERR_OTHER

text \<open>The values of \<^verbatim>\<open>errno\<close> after a failed write; \<open>EOTHER\<close> stands for every value other
  than \<^verbatim>\<open>EWOULDBLOCK\<close> (0 included: the send loop clears \<^verbatim>\<open>errno\<close> before each write).\<close>

datatype io_errno = EWOULDBLOCK | EOTHER

datatype content_type = TLS_ALERT | TLS_APPLICATION_DATA

text \<open>\<^verbatim>\<open>conn->active.cipher_suite->cipher->type\<close>: the code only asks whether it is \<^verbatim>\<open>S2N_CBC\<close>.\<close>

datatype s2n_cipher_type = S2N_CBC | S2N_NOT_CBC

text \<open>
  Modelled from the spec: \<^verbatim>\<open>struct s2n_stuffer\<close> (stuffer/s2n_stuffer.h is missing), "an owned,
  resizable byte region plus a read/write cursor pair". \<open>written\<close> holds the bytes of the
  blob from its start up to the write cursor, so the write cursor is \<open>length (written s)\<close>;
  \<open>blob_size\<close> is the allocated capacity.
\<close>

record s2n_stuffer =
  written :: "byte list"
  read_cursor :: nat
  blob_size :: nat

text \<open>
  The fields of \<^verbatim>\<open>struct s2n_connection\<close> that the three functions touch (tls/s2n_connection.h
  is missing; the widths are those of the locals the fields are copied to and of the
  spec's data model). \<open>secure\<close> is the cipher and sequence-number state that only the record
  writer reads and updates.
\<close>

record 's s2n_connection =
  config :: s2n_config
  closed :: bool
  closing :: bool
  out :: s2n_stuffer
  reader_alert_out :: s2n_stuffer
  writer_alert_out :: s2n_stuffer
  wire_bytes_out :: "64 word"
  curr_max_fragment_size :: "16 word"
  dyn_record_sz_bytes_out :: "32 word"
  write_idle_timer :: "64 word"
  actual_protocol_version :: nat
  cipher_type :: s2n_cipher_type
  secure :: 's

text \<open>
  The world outside the connection. \<open>script\<close> is what the transport will answer to the
  coming writes, one entry per call of \<^verbatim>\<open>write\<close>: \<open>Accept n\<close> takes at most \<open>n\<close> of the bytes
  offered, \<open>Refuse e\<close> fails with \<^verbatim>\<open>errno = e\<close>. A write with no entry left never returns.
  \<open>now\<close> is the monotonic clock in nanoseconds. \<open>trace\<close> records, in program order, the
  bytes the transport accepted (\<open>Tx\<close>), the payloads handed to the record writer (\<open>Rec\<close>)
  and the assignments \<^verbatim>\<open>conn->closed = 1\<close> (\<open>MarkClosed\<close>); nothing reads it.
\<close>

datatype fd_event = Accept nat | Refuse io_errno

datatype event = Tx "byte list" | Rec content_type "byte list" | MarkClosed

record world =
  script :: "fd_event list"
  now :: "64 word"
  trace :: "event list"

text \<open>
  The collaborators and constants whose definitions are missing, taken as parameters:
  \<^item> \<open>S2N_DEFAULT_FRAGMENT_LENGTH\<close> and \<open>S2N_TLS11\<close>, the constants of those names;
  \<^item> \<open>s2n_tls_record_length\<close>, the macro of that name;
  \<^item> \<open>resize_fails\<close>: whether \<^verbatim>\<open>s2n_stuffer_resize\<close> on this stuffer to this size fails, and
    with which \<^verbatim>\<open>s2n_errno\<close>;
  \<^item> \<open>record_write\<close>: the record \<^verbatim>\<open>s2n_record_write\<close> produces for a payload, with the new
    cipher state, or the \<^verbatim>\<open>s2n_errno\<close> it fails with;
  \<^item> \<open>s2n_record_max_write_payload_size\<close>;
  \<^item> \<open>s2n_connection_wipe\<close>: the connection it leaves and whether it failed.
\<close>

record 's env =
  S2N_DEFAULT_FRAGMENT_LENGTH :: "16 word"
  S2N_TLS11 :: nat
  s2n_tls_record_length :: "16 word \<Rightarrow> 32 word"
  resize_fails :: "s2n_stuffer \<Rightarrow> 32 word \<Rightarrow> s2n_error option"
  record_write :: "'s s2n_connection \<Rightarrow> content_type \<Rightarrow> byte list \<Rightarrow> s2n_error + ('s \<times> byte list)"
  s2n_record_max_write_payload_size :: "'s s2n_connection \<Rightarrow> s2n_error + nat"
  s2n_connection_wipe :: "'s s2n_connection \<Rightarrow> s2n_error option \<times> 's s2n_connection"

subsection \<open>Stuffer and timer\<close>

text \<open>Modelled from the spec: \<^verbatim>\<open>s2n_stuffer_data_available\<close> (declared in
  stuffer/s2n_stuffer.h, which is missing), the number of bytes written and not yet read:
  the "unsent bytes" of the output buffer.\<close>

definition s2n_stuffer_data_available :: "s2n_stuffer \<Rightarrow> nat" where
  "s2n_stuffer_data_available st = length (written st) - read_cursor st"

text \<open>Modelled from the spec: \<^verbatim>\<open>s2n_stuffer_rewrite\<close> (declared in stuffer/s2n_stuffer.h, which
  is missing), "Reset the Output Buffer (logically empty, retained capacity) for reuse".
  Both cursors go back to the start; the spec gives the operation no failure.\<close>

definition s2n_stuffer_rewrite :: "s2n_stuffer \<Rightarrow> s2n_error + s2n_stuffer" where
  "s2n_stuffer_rewrite st = Inr (st\<lparr>written := [], read_cursor := 0\<rparr>)"

text \<open>Modelled from the spec: \<^verbatim>\<open>s2n_stuffer_wipe\<close> (declared in stuffer/s2n_stuffer.h, which is
  missing), as \<open>s2n_stuffer_rewrite\<close>, the content being erased as well.\<close>

definition s2n_stuffer_wipe :: "s2n_stuffer \<Rightarrow> s2n_error + s2n_stuffer" where
  "s2n_stuffer_wipe st = Inr (st\<lparr>written := [], read_cursor := 0\<rparr>)"

text \<open>Modelled from the spec: \<^verbatim>\<open>s2n_stuffer_resize\<close> (declared in stuffer/s2n_stuffer.h, which is
  missing), "resize the Output Buffer's capacity"; a failure "must not corrupt or lose
  already-buffered bytes". Whether it fails, and with which \<^verbatim>\<open>s2n_errno\<close>, is the
  environment's.\<close>

definition s2n_stuffer_resize :: "'s env \<Rightarrow> s2n_stuffer \<Rightarrow> 32 word \<Rightarrow> s2n_error + s2n_stuffer" where
  "s2n_stuffer_resize E st sz =
     (case resize_fails E st sz of
        Some e \<Rightarrow> Inl e
      | None \<Rightarrow> Inr (st\<lparr>blob_size := unat sz\<rparr>))"

text \<open>Modelled from the spec: \<^verbatim>\<open>s2n_stuffer_send_to_fd\<close> (declared in stuffer/s2n_stuffer.h,
  which is missing), one \<^verbatim>\<open>write\<close> of the \<open>len\<close> bytes at the read cursor to the transport:
  "A partial write is normal and must be retried from the updated cursor". The result is
  the number of bytes written, or the \<^verbatim>\<open>errno\<close> of the failure.\<close>

definition s2n_stuffer_send_to_fd ::
  "s2n_stuffer \<Rightarrow> world \<Rightarrow> nat \<Rightarrow> ((io_errno + nat) \<times> s2n_stuffer \<times> world) option" where
  "s2n_stuffer_send_to_fd st w len =
     (case script w of
        [] \<Rightarrow> None
      | Accept n # rest \<Rightarrow>
          Some (Inr (min n len),
                st\<lparr>read_cursor := read_cursor st + min n len\<rparr>,
                w\<lparr>script := rest,
                  trace := trace w @ [Tx (take (min n len) (drop (read_cursor st) (written st)))]\<rparr>)
      | Refuse e # rest \<Rightarrow> Some (Inl e, st, w\<lparr>script := rest\<rparr>))"

text \<open>Modelled from the spec: \<^verbatim>\<open>s2n_record_write\<close> (declared in tls/s2n_record.h, which is
  missing), which "serializes and encrypts into the connection's output buffer using
  negotiated cipher/version state". The record itself is the environment's; it is
  appended at the write cursor of \<^verbatim>\<open>conn->out\<close>.\<close>

definition s2n_record_write ::
  "'s env \<Rightarrow> 's s2n_connection \<Rightarrow> world \<Rightarrow> content_type \<Rightarrow> byte list
     \<Rightarrow> (s2n_error + unit) \<times> 's s2n_connection \<times> world" where
  "s2n_record_write E c w ty payload =
     (case record_write E c ty payload of
        Inl e \<Rightarrow> (Inl e, c, w)
      | Inr (s', r) \<Rightarrow>
          (Inr (),
           c\<lparr>secure := s', out := (out c)\<lparr>written := written (out c) @ r\<rparr>\<rparr>,
           w\<lparr>trace := trace w @ [Rec ty payload]\<rparr>))"

text \<open>Modelled from the spec: \<^verbatim>\<open>s2n_timer_reset\<close> (its file is missing), "Read elapsed
  time since the idle timer was last reset, then reset it". The timer is the time of its
  last reset; the result is the new timer and the elapsed nanoseconds (\<^verbatim>\<open>uint64_t\<close>).\<close>

definition s2n_timer_reset :: "64 word \<Rightarrow> 64 word \<Rightarrow> 64 word \<times> 64 word" where
  "s2n_timer_reset timer clock = (clock, clock - timer)"

subsection \<open>\<open>adjust_record_size_if_needed\<close>\<close>

text \<open>The first half of the function: the decision. It returns \<^verbatim>\<open>new_fragment_size\<close> and the
  connection with the timer and byte counter as the branches leave them.\<close>

definition adjust_decide :: "'s env \<Rightarrow> 's s2n_connection \<Rightarrow> world \<Rightarrow> 16 word \<times> 's s2n_connection" where
  "adjust_decide E c w =
     (let curr_fragment_size = curr_max_fragment_size c;
          bytes_out = dyn_record_sz_bytes_out c;
          cfg = dyn_record_size (config c)
      in if curr_fragment_size = max_fragment_size cfg then
           (let (timer, elapsed_nanos) = s2n_timer_reset (write_idle_timer c) (now w);
                c1 = c\<lparr>write_idle_timer := timer\<rparr>;
                elapsed_millis = (ucast (elapsed_nanos div 1000000) :: 32 word)
            in if elapsed_millis \<ge> idle_millis_threshold cfg
               then (S2N_DEFAULT_FRAGMENT_LENGTH E, c1\<lparr>dyn_record_sz_bytes_out := 0\<rparr>)
               else (curr_fragment_size, c1))
         else if bytes_out \<ge> bytes_out_threshold cfg then
           (let (timer, elapsed_nanos) = s2n_timer_reset (write_idle_timer c) (now w)
            in (max_fragment_size cfg, c\<lparr>write_idle_timer := timer\<rparr>))
         else (curr_fragment_size, c))"

definition adjust_record_size_if_needed ::
  "'s env \<Rightarrow> 's s2n_connection \<Rightarrow> world \<Rightarrow> (s2n_error + unit) \<times> 's s2n_connection" where
  "adjust_record_size_if_needed E c w =
     (let curr_fragment_size = curr_max_fragment_size c;
          (new_fragment_size, c1) = adjust_decide E c w
      in if new_fragment_size \<noteq> curr_fragment_size then
           (let new_blob_size = s2n_tls_record_length E new_fragment_size
            in case s2n_stuffer_resize E (out c1) new_blob_size of
                 Inl e \<Rightarrow> if e = S2N_ERR_REALLOC then (Inr (), c1) else (Inl e, c1)
               | Inr st \<Rightarrow> (Inr (), c1\<lparr>out := st, curr_max_fragment_size := new_fragment_size\<rparr>))
         else (Inr (), c1))"

subsection \<open>\<open>s2n_flush\<close>\<close>

text \<open>The loop under the label \<^verbatim>\<open>WRITE\<close>: while \<^verbatim>\<open>conn->out\<close> holds unsent bytes, write them.
  Any failed write, would-block included, ends the function with \<open>-1\<close>.\<close>

function flush_write_pending ::
  "'s s2n_connection \<Rightarrow> world \<Rightarrow> ((s2n_error + unit) \<times> 's s2n_connection \<times> world) option" where
  "flush_write_pending c w =
     (if s2n_stuffer_data_available (out c) \<noteq> 0 then
        (case s2n_stuffer_send_to_fd (out c) w (s2n_stuffer_data_available (out c)) of
           None \<Rightarrow> None
         | Some (Inl e, st, w1) \<Rightarrow> Some (Inl S2N_ERR_OTHER, c\<lparr>out := st\<rparr>, w1)
         | Some (Inr n, st, w1) \<Rightarrow>
             flush_write_pending (c\<lparr>out := st, wire_bytes_out := wire_bytes_out c + of_nat n\<rparr>) w1)
      else Some (Inr (), c, w))"
  by pat_completeness auto
termination
  by (relation "measure (\<lambda>(c, w). length (script w))")
     (auto simp: s2n_stuffer_send_to_fd_def split: list.splits fd_event.splits)

text \<open>How a stretch of code ends: with a \<^verbatim>\<open>return\<close> of a value, or by going on (with
  \<^verbatim>\<open>goto WRITE\<close> in \<^verbatim>\<open>s2n_flush\<close>, with the next iteration in \<^verbatim>\<open>s2n_send\<close>).\<close>

datatype ('r, 'k) flow = Return 'r | Continue 'k

text \<open>The block \<^verbatim>\<open>if (conn->closing) { conn->closed = 1; GUARD(s2n_connection_wipe(conn)); }\<close>.\<close>

definition flush_closing ::
  "'s env \<Rightarrow> 's s2n_connection \<Rightarrow> world \<Rightarrow> (s2n_error + unit) \<times> 's s2n_connection \<times> world" where
  "flush_closing E c w =
     (if closing c then
        (let c1 = c\<lparr>closed := True\<rparr>;
             w1 = w\<lparr>trace := trace w @ [MarkClosed]\<rparr>
         in case s2n_connection_wipe E c1 of
              (Some e, c2) \<Rightarrow> (Inl e, c2, w1)
            | (None, c2) \<Rightarrow> (Inr (), c2, w1))
      else (Inr (), c, w))"

text \<open>\<^verbatim>\<open>GUARD(s2n_stuffer_rewrite(&conn->out)); GUARD(s2n_stuffer_wipe(&conn->out));\<close>\<close>

definition flush_reset_out :: "'s s2n_connection \<Rightarrow> (s2n_error + unit) \<times> 's s2n_connection" where
  "flush_reset_out c =
     (case s2n_stuffer_rewrite (out c) of
        Inl e \<Rightarrow> (Inl e, c)
      | Inr o1 \<Rightarrow>
         (case s2n_stuffer_wipe o1 of
            Inl e \<Rightarrow> (Inl e, c\<lparr>out := o1\<rparr>)
          | Inr o2 \<Rightarrow> (Inr (), c\<lparr>out := o2\<rparr>)))"

text \<open>The body of \<^verbatim>\<open>if (s2n_stuffer_data_available(&conn->reader_alert_out) == 2)\<close>: the two
  bytes at the start of the alert's blob go out as an alert record, the alert stuffer is
  rewound, the connection is closing, and control goes back to \<^verbatim>\<open>WRITE\<close>.\<close>

definition flush_reader_alert ::
  "'s env \<Rightarrow> 's s2n_connection \<Rightarrow> world
     \<Rightarrow> (s2n_error + unit, unit) flow \<times> 's s2n_connection \<times> world" where
  "flush_reader_alert E c w =
     (let alert = take 2 (written (reader_alert_out c))
      in case s2n_record_write E c w TLS_ALERT alert of
           (Inl e, c1, w1) \<Rightarrow> (Return (Inl e), c1, w1)
         | (Inr u, c1, w1) \<Rightarrow>
            (case s2n_stuffer_rewrite (reader_alert_out c1) of
               Inl e \<Rightarrow> (Return (Inl e), c1, w1)
             | Inr a \<Rightarrow> (Continue (), c1\<lparr>reader_alert_out := a, closing := True\<rparr>, w1)))"

text \<open>The same for \<^verbatim>\<open>conn->writer_alert_out\<close>.\<close>

definition flush_writer_alert ::
  "'s env \<Rightarrow> 's s2n_connection \<Rightarrow> world
     \<Rightarrow> (s2n_error + unit, unit) flow \<times> 's s2n_connection \<times> world" where
  "flush_writer_alert E c w =
     (let alert = take 2 (written (writer_alert_out c))
      in case s2n_record_write E c w TLS_ALERT alert of
           (Inl e, c1, w1) \<Rightarrow> (Return (Inl e), c1, w1)
         | (Inr u, c1, w1) \<Rightarrow>
            (case s2n_stuffer_rewrite (writer_alert_out c1) of
               Inl e \<Rightarrow> (Return (Inl e), c1, w1)
             | Inr a \<Rightarrow> (Continue (), c1\<lparr>writer_alert_out := a, closing := True\<rparr>, w1)))"

text \<open>One pass over the code from the label \<^verbatim>\<open>WRITE\<close> to the next \<^verbatim>\<open>return\<close> or
  \<^verbatim>\<open>goto WRITE\<close>. \<open>pmore\<close> is the current content of \<^verbatim>\<open>*more\<close>. A \<^verbatim>\<open>return -1\<close> is
  \<open>Return (Inl e)\<close>, \<open>e\<close> being \<^verbatim>\<open>s2n_errno\<close>; the pass is \<open>None\<close> when a write never returns.\<close>

definition flush_pass ::
  "'s env \<Rightarrow> int \<Rightarrow> 's s2n_connection \<Rightarrow> world
     \<Rightarrow> ((s2n_error + unit, unit) flow \<times> int \<times> 's s2n_connection \<times> world) option" where
  "flush_pass E pmore c w =
     (case flush_write_pending c w of
        None \<Rightarrow> None
      | Some (Inl e, c1, w1) \<Rightarrow> Some (Return (Inl e), pmore, c1, w1)
      | Some (Inr u, c1, w1) \<Rightarrow>
         (case flush_closing E c1 w1 of
            (Inl e, c2, w2) \<Rightarrow> Some (Return (Inl e), pmore, c2, w2)
          | (Inr u, c2, w2) \<Rightarrow>
             (case flush_reset_out c2 of
                (Inl e, c3) \<Rightarrow> Some (Return (Inl e), pmore, c3, w2)
              | (Inr u, c3) \<Rightarrow>
                 if s2n_stuffer_data_available (reader_alert_out c3) = 2 then
                   (case flush_reader_alert E c3 w2 of (fl, c4, w4) \<Rightarrow> Some (fl, pmore, c4, w4))
                 else if s2n_stuffer_data_available (writer_alert_out c3) = 2 then
                   (case flush_writer_alert E c3 w2 of (fl, c4, w4) \<Rightarrow> Some (fl, pmore, c4, w4))
                 else Some (Return (Inr ()), 0, c3, w2))))"

text \<open>The code under \<^verbatim>\<open>WRITE\<close>, passes repeated as long as they end in \<^verbatim>\<open>goto WRITE\<close>. The
  result is the return value, \<^verbatim>\<open>*more\<close>, the connection and the world; \<open>None\<close> when the
  function does not return.\<close>

partial_function (option) flush_WRITE ::
  "'s env \<Rightarrow> int \<Rightarrow> 's s2n_connection \<Rightarrow> world
     \<Rightarrow> ((s2n_error + unit) \<times> int \<times> 's s2n_connection \<times> world) option" where
  "flush_WRITE E pmore c w =
     (case flush_pass E pmore c w of
        None \<Rightarrow> None
      | Some (Return r, pmore1, c1, w1) \<Rightarrow> Some (r, pmore1, c1, w1)
      | Some (Continue u, pmore1, c1, w1) \<Rightarrow> flush_WRITE E pmore1 c1 w1)"

declare flush_WRITE.simps [code]

text \<open>\<^verbatim>\<open>s2n_flush\<close>: \<^verbatim>\<open>*more = 1\<close>, then the code under \<^verbatim>\<open>WRITE\<close>. \<open>more0\<close> is what the caller's
  variable held before the call.\<close>

definition s2n_flush ::
  "'s env \<Rightarrow> 's s2n_connection \<Rightarrow> world \<Rightarrow> int
     \<Rightarrow> ((s2n_error + unit) \<times> int \<times> 's s2n_connection \<times> world) option" where
  "s2n_flush E c w more0 = (let pmore = 1 in flush_WRITE E pmore c w)"

subsection \<open>\<open>s2n_send\<close>\<close>

text \<open>The inner loop of \<^verbatim>\<open>s2n_send\<close> ("Send it"): while \<^verbatim>\<open>conn->out\<close> holds unsent bytes, write
  them. It ends with \<open>Inr ()\<close> when the buffer is drained and with \<open>Inl e\<close> at the first failed
  write, \<open>e\<close> being the \<^verbatim>\<open>errno\<close> the enclosing loop then looks at.\<close>

function send_write_pending ::
  "'s s2n_connection \<Rightarrow> world \<Rightarrow> ((io_errno + unit) \<times> 's s2n_connection \<times> world) option" where
  "send_write_pending c w =
     (if s2n_stuffer_data_available (out c) \<noteq> 0 then
        (case s2n_stuffer_send_to_fd (out c) w (s2n_stuffer_data_available (out c)) of
           None \<Rightarrow> None
         | Some (Inl e, st, w1) \<Rightarrow> Some (Inl e, c\<lparr>out := st\<rparr>, w1)
         | Some (Inr n, st, w1) \<Rightarrow>
             send_write_pending (c\<lparr>out := st, wire_bytes_out := wire_bytes_out c + of_nat n\<rparr>) w1)
      else Some (Inr (), c, w))"
  by pat_completeness auto
termination
  by (relation "measure (\<lambda>(c, w). length (script w))")
     (auto simp: s2n_stuffer_send_to_fd_def split: list.splits fd_event.splits)

text \<open>The size of the next chunk, \<^verbatim>\<open>in.size\<close>, and the new value of \<^verbatim>\<open>cbcHackUsed\<close>: the first
  statements of the body of \<^verbatim>\<open>while (size)\<close>. \<open>sz\<close> is \<^verbatim>\<open>size\<close>, the input not yet consumed, an
  \<^verbatim>\<open>ssize_t\<close>. \<^verbatim>\<open>in.size\<close> is the \<^verbatim>\<open>size\<close> field of \<^verbatim>\<open>struct s2n_blob\<close>, a \<^verbatim>\<open>uint32_t\<close> (the
  structure is declared in \<^verbatim>\<open>utils/s2n_blob.h\<close>, which is missing): the assignment
  \<^verbatim>\<open>in.size = size\<close> keeps the low 32 bits of \<^verbatim>\<open>size\<close>, and it comes before the comparison with
  \<^verbatim>\<open>max_payload_size\<close>.\<close>

definition chunk_size ::
  "'s env \<Rightarrow> 's s2n_connection \<Rightarrow> nat \<Rightarrow> nat \<Rightarrow> bool \<Rightarrow> nat \<times> bool" where
  "chunk_size E c sz max_payload_size cbcHackUsed =
     (let in_size = sz mod 2 ^ 32;
          in_size = (if in_size > max_payload_size then max_payload_size else in_size)
      in if actual_protocol_version c < S2N_TLS11 E \<and> cipher_type c = S2N_CBC then
           (if in_size > 1 \<and> \<not> cbcHackUsed then (1, True) else (in_size, cbcHackUsed))
         else (in_size, cbcHackUsed))"

text \<open>The body of \<^verbatim>\<open>while (size)\<close>, once. \<open>buf\<close> is the input from \<^verbatim>\<open>in.data\<close> on, so \<^verbatim>\<open>size\<close> is
  its length. It ends with a \<^verbatim>\<open>return\<close> or goes on to the next test of \<^verbatim>\<open>size\<close> with the rest
  of the input, the new \<^verbatim>\<open>bytes_written\<close> and the new \<^verbatim>\<open>cbcHackUsed\<close>.\<close>

definition send_chunk ::
  "'s env \<Rightarrow> nat \<Rightarrow> byte list \<Rightarrow> nat \<Rightarrow> bool \<Rightarrow> 's s2n_connection \<Rightarrow> world
     \<Rightarrow> ((s2n_error + nat, byte list \<times> nat \<times> bool) flow \<times> 's s2n_connection \<times> world) option" where
  "send_chunk E max_payload_size buf bytes_written cbcHackUsed c w =
     (case chunk_size E c (length buf) max_payload_size cbcHackUsed of
        (in_size, cbcHackUsed1) \<Rightarrow>
          (case s2n_stuffer_rewrite (out c) of
             Inl e \<Rightarrow> Some (Return (Inl e), c, w)
           | Inr o1 \<Rightarrow>
              (case s2n_record_write E (c\<lparr>out := o1\<rparr>) w TLS_APPLICATION_DATA (take in_size buf) of
                 (Inl e, c1, w1) \<Rightarrow> Some (Return (Inl e), c1, w1)
               | (Inr u, c1, w1) \<Rightarrow>
                  (let bytes_written1 = bytes_written + in_size;
                       c2 = c1\<lparr>dyn_record_sz_bytes_out := dyn_record_sz_bytes_out c1 + of_nat in_size\<rparr>
                   in case send_write_pending c2 w1 of
                        None \<Rightarrow> None
                      | Some (Inl e, c3, w3) \<Rightarrow>
                          (if e = EWOULDBLOCK then Some (Return (Inr bytes_written1), c3, w3)
                           else Some (Return (Inl S2N_ERR_OTHER), c3, w3))
                      | Some (Inr u, c3, w3) \<Rightarrow>
                          Some (Continue (drop in_size buf, bytes_written1, cbcHackUsed1), c3, w3)))))"

text \<open>The loop \<^verbatim>\<open>while (size)\<close> and the two statements after it. The loop need not end (a
  chunk may be empty), hence the option.\<close>

partial_function (option) send_loop ::
  "'s env \<Rightarrow> nat \<Rightarrow> byte list \<Rightarrow> nat \<Rightarrow> bool \<Rightarrow> int \<Rightarrow> 's s2n_connection \<Rightarrow> world
     \<Rightarrow> ((s2n_error + nat) \<times> int \<times> 's s2n_connection \<times> world) option" where
  "send_loop E max_payload_size buf bytes_written cbcHackUsed pmore c w =
     (if length buf \<noteq> 0 then
        (case send_chunk E max_payload_size buf bytes_written cbcHackUsed c w of
           None \<Rightarrow> None
         | Some (Return r, c1, w1) \<Rightarrow> Some (r, pmore, c1, w1)
         | Some (Continue (buf1, bytes_written1, cbcHackUsed1), c1, w1) \<Rightarrow>
             send_loop E max_payload_size buf1 bytes_written1 cbcHackUsed1 pmore c1 w1)
      else Some (Inr bytes_written, 0, c, w))"

declare send_loop.simps [code]

text \<open>Where the loop \<^verbatim>\<open>while (size)\<close> stands after \<open>k\<close> complete iterations, at the test of
  \<^verbatim>\<open>size\<close>: the input not yet consumed, \<^verbatim>\<open>bytes_written\<close>, \<^verbatim>\<open>cbcHackUsed\<close>, the connection and
  the world. It is \<open>None\<close> when the loop does not get that far: the input was exhausted
  before, or an iteration returned or did not end.\<close>

fun send_iterations ::
  "'s env \<Rightarrow> nat \<Rightarrow> nat \<Rightarrow> byte list \<times> nat \<times> bool \<times> 's s2n_connection \<times> world
     \<Rightarrow> (byte list \<times> nat \<times> bool \<times> 's s2n_connection \<times> world) option" where
  "send_iterations E max_payload_size 0 st = Some st"
| "send_iterations E max_payload_size (Suc k) (buf, bytes_written, cbcHackUsed, c, w) =
     (if length buf \<noteq> 0 then
        (case send_chunk E max_payload_size buf bytes_written cbcHackUsed c w of
           Some (Continue st1, c1, w1) \<Rightarrow>
             send_iterations E max_payload_size k (fst st1, fst (snd st1), snd (snd st1), c1, w1)
         | _ \<Rightarrow> None)
      else None)"

text \<open>\<^verbatim>\<open>s2n_send\<close>. \<open>buf\<close> is the caller's buffer and \<^verbatim>\<open>size\<close> its length; \<open>more0\<close> is what the
  caller's \<^verbatim>\<open>more\<close> held before the call. The result is the return value (\<open>Inl\<close> for \<open>-1\<close>, with
  \<^verbatim>\<open>s2n_errno\<close>; \<open>Inr\<close> for a byte count), \<^verbatim>\<open>*more\<close>, the connection and the world.\<close>

definition s2n_send ::
  "'s env \<Rightarrow> 's s2n_connection \<Rightarrow> world \<Rightarrow> byte list \<Rightarrow> int
     \<Rightarrow> ((s2n_error + nat) \<times> int \<times> 's s2n_connection \<times> world) option" where
  "s2n_send E c w buf more0 =
     (if closed c then Some (Inl S2N_ERR_CLOSED, more0, c, w)
      else
        (case s2n_flush E c w more0 of
           None \<Rightarrow> None
         | Some (Inl e, pmore, c1, w1) \<Rightarrow> Some (Inl e, pmore, c1, w1)
         | Some (Inr u, pmore, c1, w1) \<Rightarrow>
            (let pmore = 1
             in case adjust_record_size_if_needed E c1 w1 of
                  (Inl e, c2) \<Rightarrow> Some (Inl e, pmore, c2, w1)
                | (Inr u, c2) \<Rightarrow>
                   (case s2n_record_max_write_payload_size E c2 of
                      Inl e \<Rightarrow> Some (Inl e, pmore, c2, w1)
                    | Inr max_payload_size \<Rightarrow>
                        send_loop E max_payload_size buf 0 False pmore c2 w1))))"

subsection \<open>Notions used to state the properties\<close>

text \<open>The bytes of a stuffer that are written and not yet read: for \<^verbatim>\<open>conn->out\<close>, the bytes
  still to be put on the wire.\<close>

definition unsent :: "s2n_stuffer \<Rightarrow> byte list" where
  "unsent st = drop (read_cursor st) (written st)"

text \<open>The alert that \<^verbatim>\<open>s2n_flush\<close> turns into a record first: the reader-driven one when it
  is pending (two bytes available), the writer-driven one otherwise.\<close>

definition first_alert :: "'s s2n_connection \<Rightarrow> byte list" where
  "first_alert c =
     (if s2n_stuffer_data_available (reader_alert_out c) = 2
      then take 2 (written (reader_alert_out c))
      else take 2 (written (writer_alert_out c)))"

text \<open>Where a connection stands with an alert \<open>a\<close> that was pending on a connection \<open>c0\<close>
  not yet closing, \<open>evs\<close> being what has happened since. Waiting: nothing but transmissions
  so far, the alert stuffers as they were, the connection not closing. In flight: the alert
  has been handed to the record writer, the connection is closing, and the record is partly
  transmitted, the rest of it being the unsent bytes of \<^verbatim>\<open>conn->out\<close>. Sent and closed: the
  record was transmitted in full, and after that the connection was marked closed.\<close>

definition alert_waiting :: "'s s2n_connection \<Rightarrow> 's s2n_connection \<Rightarrow> event list \<Rightarrow> bool" where
  "alert_waiting c0 c evs \<longleftrightarrow>
     \<not> closing c \<and> reader_alert_out c = reader_alert_out c0
     \<and> writer_alert_out c = writer_alert_out c0 \<and> (\<exists>txs0. evs = map Tx txs0)"

definition alert_in_flight :: "'s env \<Rightarrow> byte list \<Rightarrow> 's s2n_connection \<Rightarrow> event list \<Rightarrow> bool" where
  "alert_in_flight E a c evs \<longleftrightarrow>
     closing c
     \<and> (\<exists>txs0 cx s record txs.
           evs = map Tx txs0 @ Rec TLS_ALERT a # map Tx txs
           \<and> record_write E cx TLS_ALERT a = Inr (s, record)
           \<and> concat txs @ unsent (out c) = record)"

definition alert_then_closed :: "'s env \<Rightarrow> byte list \<Rightarrow> event list \<Rightarrow> bool" where
  "alert_then_closed E a evs \<longleftrightarrow>
     (\<exists>txs0 cx s record txs post.
         evs = map Tx txs0 @ Rec TLS_ALERT a # map Tx txs @ MarkClosed # post
         \<and> record_write E cx TLS_ALERT a = Inr (s, record)
         \<and> concat txs = record)"

text \<open>One of the three holds, for the alert that \<^verbatim>\<open>s2n_flush\<close> handles first.\<close>

definition alert_order :: "'s env \<Rightarrow> 's s2n_connection \<Rightarrow> 's s2n_connection \<Rightarrow> event list \<Rightarrow> bool" where
  "alert_order E c0 c evs \<longleftrightarrow>
     alert_waiting c0 c evs \<or> alert_in_flight E (first_alert c0) c evs
     \<or> alert_then_closed E (first_alert c0) evs"

text \<open>The payloads of the application-data records in a trace, in order: the chunks that
  \<^verbatim>\<open>s2n_send\<close> handed to the record writer.\<close>

fun app_chunks :: "event list \<Rightarrow> byte list list" where
  "app_chunks [] = []"
| "app_chunks (Rec TLS_APPLICATION_DATA p # evs) = p # app_chunks evs"
| "app_chunks (ev # evs) = app_chunks evs"

text \<open>The condition under which \<^verbatim>\<open>s2n_send\<close> splits off a one-byte record: a protocol version
  below TLS 1.1 with a CBC cipher.\<close>

definition legacy_cbc :: "'s env \<Rightarrow> 's s2n_connection \<Rightarrow> bool" where
  "legacy_cbc E c \<longleftrightarrow> actual_protocol_version c < S2N_TLS11 E \<and> cipher_type c = S2N_CBC"

text \<open>The chunk sizes the specification prescribes for \<open>len\<close> bytes of input and a
  maximum payload of \<open>mps\<close>: each chunk is the minimum of what remains and \<open>mps\<close>, except
  that the first one is a single byte when the mitigation applies (\<open>split\<close>) and its natural
  size exceeds one byte; the remainder follows as ordinary chunks.\<close>

fun spec_chunk_sizes :: "bool \<Rightarrow> nat \<Rightarrow> nat \<Rightarrow> nat list \<Rightarrow> bool" where
  "spec_chunk_sizes split len mps [] = True"
| "spec_chunk_sizes split len mps (n # ns) =
     (n = (if split \<and> 1 < min len mps then 1 else min len mps)
      \<and> spec_chunk_sizes False (len - n) mps ns)"

text \<open>The two legal fragment sizes of a connection whose configuration is \<open>cfg\<close>.\<close>

definition two_valued :: "'s env \<Rightarrow> s2n_config \<Rightarrow> 's s2n_connection \<Rightarrow> bool" where
  "two_valued E cfg c \<longleftrightarrow>
     config c = cfg
     \<and> (curr_max_fragment_size c = S2N_DEFAULT_FRAGMENT_LENGTH E
        \<or> curr_max_fragment_size c = max_fragment_size (dyn_record_size cfg))"

text \<open>What is asked of the connection wipe, whose code is missing: a connection with the
  configuration \<open>cfg\<close> and a legal size has both after the wipe.\<close>

definition wipe_keeps_sizing :: "'s env \<Rightarrow> bool" where
  "wipe_keeps_sizing E \<longleftrightarrow>
     (\<forall>cfg c. two_valued E cfg c \<longrightarrow> two_valued E cfg (snd (s2n_connection_wipe E c)))"

text \<open>Sequences of calls on one connection. Between calls the environment may move: the
  transport gets a new script and the clock a new value. Return values are dropped: the
  caller may go on whatever a call returned. The run is \<open>None\<close> when a call does not return.\<close>

datatype op = Send "byte list" | Adjust | Flush | Environment "fd_event list" "64 word"

fun run :: "'s env \<Rightarrow> op list \<Rightarrow> 's s2n_connection \<Rightarrow> world \<Rightarrow> ('s s2n_connection \<times> world) option" where
  "run E [] c w = Some (c, w)"
| "run E (Send buf # ops) c w =
     (case s2n_send E c w buf 0 of
        None \<Rightarrow> None
      | Some (r, m, c1, w1) \<Rightarrow> run E ops c1 w1)"
| "run E (Adjust # ops) c w =
     (case adjust_record_size_if_needed E c w of (r, c1) \<Rightarrow> run E ops c1 w)"
| "run E (Flush # ops) c w =
     (case s2n_flush E c w 0 of
        None \<Rightarrow> None
      | Some (r, m, c1, w1) \<Rightarrow> run E ops c1 w1)"
| "run E (Environment sc t # ops) c w = run E ops c (w\<lparr>script := sc, now := t\<rparr>)"

subsection \<open>A test bed\<close>

text \<open>An environment and a connection on which the functions can be run: a default
  fragment of 1435 bytes, a record of one type byte followed by the payload, a resize that
  succeeds, and a wipe that leaves the connection as it is.\<close>

definition ex_env :: "unit env" where
  "ex_env =
     \<lparr>S2N_DEFAULT_FRAGMENT_LENGTH = 1435,
      S2N_TLS11 = 32,
      s2n_tls_record_length = (\<lambda>n. ucast n + 5),
      resize_fails = (\<lambda>st sz. None),
      record_write = (\<lambda>c ty p. Inr ((), (case ty of TLS_ALERT \<Rightarrow> 21 | TLS_APPLICATION_DATA \<Rightarrow> 23) # p)),
      s2n_record_max_write_payload_size = (\<lambda>c. Inr (unat (curr_max_fragment_size c))),
      s2n_connection_wipe = (\<lambda>c. (None, c))\<rparr>"

definition ex_stuffer :: s2n_stuffer where
  "ex_stuffer = \<lparr>written = [], read_cursor = 0, blob_size = 1440\<rparr>"

text \<open>A connection as it is after the handshake: nothing buffered, the fragment size at
  the default, growth after 10 bytes, shrinking after 10 idle milliseconds.\<close>

definition ex_conn :: "unit s2n_connection" where
  "ex_conn =
     \<lparr>config = \<lparr>dyn_record_size =
                 \<lparr>bytes_out_threshold = 10, idle_millis_threshold = 10, max_fragment_size = 16384\<rparr>\<rparr>,
      closed = False,
      closing = False,
      out = ex_stuffer,
      reader_alert_out = ex_stuffer,
      writer_alert_out = ex_stuffer,
      wire_bytes_out = 0,
      curr_max_fragment_size = 1435,
      dyn_record_sz_bytes_out = 0,
      write_idle_timer = 0,
      actual_protocol_version = 33,
      cipher_type = S2N_NOT_CBC,
      secure = ()\<rparr>"

definition ex_world :: world where
  "ex_world = \<lparr>script = [], now = 0, trace = []\<rparr>"

text \<open>Connections with a fatal alert staged by the reader (handshake failure), with a
  close-notify staged by the writer, and with both.\<close>

definition ex_conn_reader_alert :: "unit s2n_connection" where
  "ex_conn_reader_alert = ex_conn\<lparr>reader_alert_out := ex_stuffer\<lparr>written := [2, 40]\<rparr>\<rparr>"

definition ex_conn_writer_alert :: "unit s2n_connection" where
  "ex_conn_writer_alert = ex_conn\<lparr>writer_alert_out := ex_stuffer\<lparr>written := [1, 0]\<rparr>\<rparr>"

definition ex_conn_both_alerts :: "unit s2n_connection" where
  "ex_conn_both_alerts =
     ex_conn\<lparr>reader_alert_out := ex_stuffer\<lparr>written := [2, 40]\<rparr>,
             writer_alert_out := ex_stuffer\<lparr>written := [1, 0]\<rparr>\<rparr>"

text \<open>An environment whose wipe clears what is staged and the closing flag: the two alert
  stuffers and the output buffer are emptied.\<close>

definition ex_env_wiping :: "unit env" where
  "ex_env_wiping =
     ex_env\<lparr>s2n_connection_wipe :=
               \<lambda>c. (None, c\<lparr>closing := False, out := ex_stuffer,
                            reader_alert_out := ex_stuffer, writer_alert_out := ex_stuffer\<rparr>)\<rparr>"

text \<open>A connection negotiated at TLS 1.0 (version 31) with a CBC cipher, and an environment
  whose records carry at most two bytes of payload.\<close>

definition ex_conn_legacy :: "unit s2n_connection" where
  "ex_conn_legacy = ex_conn\<lparr>actual_protocol_version := 31, cipher_type := S2N_CBC\<rparr>"

definition ex_env_small :: "unit env" where
  "ex_env_small = ex_env\<lparr>s2n_record_max_write_payload_size := \<lambda>c. Inr 2\<rparr>"

text \<open>An environment in which every resize of a stuffer fails for lack of memory.\<close>

definition ex_env_no_memory :: "unit env" where
  "ex_env_no_memory = ex_env\<lparr>resize_fails := \<lambda>st sz. Some S2N_ERR_REALLOC\<rparr>"

text \<open>The boundary test of the repository's unit test, with a threshold of 10 bytes: nine
  bytes, then the tenth, then one more; and its idle test: 11 ms later, one more byte.\<close>

definition ex_ops_grow :: "op list" where
  "ex_ops_grow =
     [Environment [Accept 100, Accept 100, Accept 100] 0,
      Send [1, 2, 3, 4, 5, 6, 7, 8, 9], Send [10], Send [11]]"

definition ex_ops_idle :: "op list" where
  "ex_ops_idle = ex_ops_grow @ [Environment [Accept 100] 11000000, Send [12]]"

section \<open>Properties\<close>

declare flush_write_pending.simps [simp del]
declare send_write_pending.simps [simp del]

lemmas ex_defs = ex_env_def ex_conn_def ex_world_def ex_stuffer_def

text \<open>The equations that evaluate a call on a concrete connection and world.\<close>

lemmas eval_defs = s2n_send_def s2n_flush_def flush_WRITE.simps flush_pass_def
  flush_closing_def flush_reset_out_def flush_reader_alert_def flush_writer_alert_def
  flush_write_pending.simps send_write_pending.simps send_loop.simps send_chunk_def chunk_size_def
  s2n_record_write_def s2n_stuffer_rewrite_def s2n_stuffer_wipe_def s2n_stuffer_resize_def
  s2n_stuffer_data_available_def s2n_stuffer_send_to_fd_def s2n_timer_reset_def
  adjust_record_size_if_needed_def adjust_decide_def Let_def

subsection \<open>The two write loops\<close>

text \<open>What a run of the loop under \<^verbatim>\<open>WRITE\<close> does: it touches \<^verbatim>\<open>conn->out\<close> and
  \<^verbatim>\<open>conn->wire_bytes_out\<close> only, leaves the clock alone, appends transmissions to the
  trace and, when it ends without error, has transmitted exactly the unsent bytes and left
  none.\<close>

lemma flush_write_pending_effect:
  "flush_write_pending c w = Some (r, c', w') \<Longrightarrow>
     c' = c\<lparr>out := out c', wire_bytes_out := wire_bytes_out c'\<rparr>
     \<and> now w' = now w
     \<and> (\<exists>txs. trace w' = trace w @ map Tx txs
              \<and> (r = Inr () \<longrightarrow> concat txs = unsent (out c)))
     \<and> (r = Inr () \<longrightarrow> s2n_stuffer_data_available (out c') = 0)"
proof (induction sc \<equiv> "script w" arbitrary: c w)
  case Nil
  from Nil.prems Nil.hyps[symmetric] show ?case
    by (subst (asm) flush_write_pending.simps)
       (auto simp: s2n_stuffer_send_to_fd_def s2n_stuffer_data_available_def unsent_def
             split: if_splits)
next
  case (Cons ev rest)
  show ?case
  proof (cases "s2n_stuffer_data_available (out c) \<noteq> 0")
    case False
    with Cons.prems show ?thesis
      by (subst (asm) flush_write_pending.simps)
         (auto simp: s2n_stuffer_data_available_def unsent_def)
  next
    case True
    note avail = this
    show ?thesis
    proof (cases ev)
      case (Refuse e)
      with Cons.prems Cons.hyps(2)[symmetric] avail show ?thesis
        by (subst (asm) flush_write_pending.simps)
           (auto simp: s2n_stuffer_send_to_fd_def)
    next
      case (Accept n)
      define k where "k = min n (s2n_stuffer_data_available (out c))"
      define c1 where "c1 = c\<lparr>out := (out c)\<lparr>read_cursor := read_cursor (out c) + k\<rparr>,
                               wire_bytes_out := wire_bytes_out c + of_nat k\<rparr>"
      define w1 where "w1 = w\<lparr>script := rest, trace := trace w @ [Tx (take k (unsent (out c)))]\<rparr>"
      from Cons.prems Cons.hyps(2)[symmetric] avail Accept
      have step: "flush_write_pending c1 w1 = Some (r, c', w')"
        by (subst (asm) flush_write_pending.simps)
           (simp add: s2n_stuffer_send_to_fd_def c1_def w1_def k_def unsent_def)
      have "rest = script w1" by (simp add: w1_def)
      from Cons.hyps(1)[OF this step]
      obtain txs where ih:
        "c' = c1\<lparr>out := out c', wire_bytes_out := wire_bytes_out c'\<rparr>"
        "now w' = now w1"
        "trace w' = trace w1 @ map Tx txs"
        "r = Inr () \<longrightarrow> concat txs = unsent (out c1)"
        "r = Inr () \<longrightarrow> s2n_stuffer_data_available (out c') = 0"
        by blast
      have "unsent (out c1) = drop k (unsent (out c))"
        by (simp add: unsent_def c1_def add.commute)
      then have "unsent (out c) = take k (unsent (out c)) @ unsent (out c1)"
        by simp
      with ih have "trace w' = trace w @ map Tx (take k (unsent (out c)) # txs)
          \<and> (r = Inr () \<longrightarrow> concat (take k (unsent (out c)) # txs) = unsent (out c))"
        by (simp add: w1_def)
      then have "\<exists>txs. trace w' = trace w @ map Tx txs
              \<and> (r = Inr () \<longrightarrow> concat txs = unsent (out c))"
        by blast
      moreover from ih(1) have "c' = c\<lparr>out := out c', wire_bytes_out := wire_bytes_out c'\<rparr>"
        by (simp add: c1_def)
      ultimately show ?thesis using ih(2,5) by (simp add: w1_def)
    qed
  qed
qed

lemma flush_write_pending_fields:
  assumes "flush_write_pending c w = Some (r, c', w')"
  shows "closing c' = closing c" "closed c' = closed c" "config c' = config c"
    "curr_max_fragment_size c' = curr_max_fragment_size c"
    "reader_alert_out c' = reader_alert_out c" "writer_alert_out c' = writer_alert_out c"
    "dyn_record_sz_bytes_out c' = dyn_record_sz_bytes_out c"
    "actual_protocol_version c' = actual_protocol_version c" "cipher_type c' = cipher_type c"
    "write_idle_timer c' = write_idle_timer c" "secure c' = secure c"
proof -
  from flush_write_pending_effect [OF assms]
  have eq: "c' = c\<lparr>out := out c', wire_bytes_out := wire_bytes_out c'\<rparr>" by blast
  show "closing c' = closing c" using arg_cong [OF eq, of closing] by simp
  show "closed c' = closed c" using arg_cong [OF eq, of closed] by simp
  show "config c' = config c" using arg_cong [OF eq, of config] by simp
  show "curr_max_fragment_size c' = curr_max_fragment_size c"
    using arg_cong [OF eq, of curr_max_fragment_size] by simp
  show "reader_alert_out c' = reader_alert_out c" using arg_cong [OF eq, of reader_alert_out] by simp
  show "writer_alert_out c' = writer_alert_out c" using arg_cong [OF eq, of writer_alert_out] by simp
  show "dyn_record_sz_bytes_out c' = dyn_record_sz_bytes_out c"
    using arg_cong [OF eq, of dyn_record_sz_bytes_out] by simp
  show "actual_protocol_version c' = actual_protocol_version c"
    using arg_cong [OF eq, of actual_protocol_version] by simp
  show "cipher_type c' = cipher_type c" using arg_cong [OF eq, of cipher_type] by simp
  show "write_idle_timer c' = write_idle_timer c" using arg_cong [OF eq, of write_idle_timer] by simp
  show "secure c' = secure c" using arg_cong [OF eq, of secure] by simp
qed

text \<open>The same for the inner loop of \<^verbatim>\<open>s2n_send\<close>.\<close>

lemma send_write_pending_effect:
  "send_write_pending c w = Some (r, c', w') \<Longrightarrow>
     c' = c\<lparr>out := out c', wire_bytes_out := wire_bytes_out c'\<rparr>
     \<and> now w' = now w
     \<and> (\<exists>txs. trace w' = trace w @ map Tx txs
              \<and> (r = Inr () \<longrightarrow> concat txs = unsent (out c)))
     \<and> (r = Inr () \<longrightarrow> s2n_stuffer_data_available (out c') = 0)"
proof (induction sc \<equiv> "script w" arbitrary: c w)
  case Nil
  from Nil.prems Nil.hyps[symmetric] show ?case
    by (subst (asm) send_write_pending.simps)
       (auto simp: s2n_stuffer_send_to_fd_def s2n_stuffer_data_available_def unsent_def
             split: if_splits)
next
  case (Cons ev rest)
  show ?case
  proof (cases "s2n_stuffer_data_available (out c) \<noteq> 0")
    case False
    with Cons.prems show ?thesis
      by (subst (asm) send_write_pending.simps)
         (auto simp: s2n_stuffer_data_available_def unsent_def)
  next
    case True
    note avail = this
    show ?thesis
    proof (cases ev)
      case (Refuse e)
      with Cons.prems Cons.hyps(2)[symmetric] avail show ?thesis
        by (subst (asm) send_write_pending.simps)
           (auto simp: s2n_stuffer_send_to_fd_def)
    next
      case (Accept n)
      define k where "k = min n (s2n_stuffer_data_available (out c))"
      define c1 where "c1 = c\<lparr>out := (out c)\<lparr>read_cursor := read_cursor (out c) + k\<rparr>,
                               wire_bytes_out := wire_bytes_out c + of_nat k\<rparr>"
      define w1 where "w1 = w\<lparr>script := rest, trace := trace w @ [Tx (take k (unsent (out c)))]\<rparr>"
      from Cons.prems Cons.hyps(2)[symmetric] avail Accept
      have step: "send_write_pending c1 w1 = Some (r, c', w')"
        by (subst (asm) send_write_pending.simps)
           (simp add: s2n_stuffer_send_to_fd_def c1_def w1_def k_def unsent_def)
      have "rest = script w1" by (simp add: w1_def)
      from Cons.hyps(1)[OF this step]
      obtain txs where ih:
        "c' = c1\<lparr>out := out c', wire_bytes_out := wire_bytes_out c'\<rparr>"
        "now w' = now w1"
        "trace w' = trace w1 @ map Tx txs"
        "r = Inr () \<longrightarrow> concat txs = unsent (out c1)"
        "r = Inr () \<longrightarrow> s2n_stuffer_data_available (out c') = 0"
        by blast
      have "unsent (out c1) = drop k (unsent (out c))"
        by (simp add: unsent_def c1_def add.commute)
      then have "unsent (out c) = take k (unsent (out c)) @ unsent (out c1)"
        by simp
      with ih have "trace w' = trace w @ map Tx (take k (unsent (out c)) # txs)
          \<and> (r = Inr () \<longrightarrow> concat (take k (unsent (out c)) # txs) = unsent (out c))"
        by (simp add: w1_def)
      then have "\<exists>txs. trace w' = trace w @ map Tx txs
              \<and> (r = Inr () \<longrightarrow> concat txs = unsent (out c))"
        by blast
      moreover from ih(1) have "c' = c\<lparr>out := out c', wire_bytes_out := wire_bytes_out c'\<rparr>"
        by (simp add: c1_def)
      ultimately show ?thesis using ih(2,5) by (simp add: w1_def)
    qed
  qed
qed

lemma send_write_pending_fields:
  assumes "send_write_pending c w = Some (r, c', w')"
  shows "closing c' = closing c" "closed c' = closed c" "config c' = config c"
    "curr_max_fragment_size c' = curr_max_fragment_size c"
    "reader_alert_out c' = reader_alert_out c" "writer_alert_out c' = writer_alert_out c"
    "dyn_record_sz_bytes_out c' = dyn_record_sz_bytes_out c"
    "actual_protocol_version c' = actual_protocol_version c" "cipher_type c' = cipher_type c"
    "write_idle_timer c' = write_idle_timer c" "secure c' = secure c"
proof -
  from send_write_pending_effect [OF assms]
  have eq: "c' = c\<lparr>out := out c', wire_bytes_out := wire_bytes_out c'\<rparr>" by blast
  show "closing c' = closing c" using arg_cong [OF eq, of closing] by simp
  show "closed c' = closed c" using arg_cong [OF eq, of closed] by simp
  show "config c' = config c" using arg_cong [OF eq, of config] by simp
  show "curr_max_fragment_size c' = curr_max_fragment_size c"
    using arg_cong [OF eq, of curr_max_fragment_size] by simp
  show "reader_alert_out c' = reader_alert_out c" using arg_cong [OF eq, of reader_alert_out] by simp
  show "writer_alert_out c' = writer_alert_out c" using arg_cong [OF eq, of writer_alert_out] by simp
  show "dyn_record_sz_bytes_out c' = dyn_record_sz_bytes_out c"
    using arg_cong [OF eq, of dyn_record_sz_bytes_out] by simp
  show "actual_protocol_version c' = actual_protocol_version c"
    using arg_cong [OF eq, of actual_protocol_version] by simp
  show "cipher_type c' = cipher_type c" using arg_cong [OF eq, of cipher_type] by simp
  show "write_idle_timer c' = write_idle_timer c" using arg_cong [OF eq, of write_idle_timer] by simp
  show "secure c' = secure c" using arg_cong [OF eq, of secure] by simp
qed

subsection \<open>\<open>s2n_flush\<close>\<close>

text \<open>The blocks of a pass, with the stuffer operations evaluated.\<close>

lemma flush_reset_out_eq:
  "flush_reset_out c = (Inr (), c\<lparr>out := (out c)\<lparr>written := [], read_cursor := 0\<rparr>\<rparr>)"
  by (simp add: flush_reset_out_def s2n_stuffer_rewrite_def s2n_stuffer_wipe_def)

lemma flush_closing_eq:
  "flush_closing E c w =
     (if closing c
      then (case fst (s2n_connection_wipe E (c\<lparr>closed := True\<rparr>)) of Some e \<Rightarrow> Inl e | None \<Rightarrow> Inr (),
            snd (s2n_connection_wipe E (c\<lparr>closed := True\<rparr>)),
            w\<lparr>trace := trace w @ [MarkClosed]\<rparr>)
      else (Inr (), c, w))"
  by (simp add: flush_closing_def Let_def split: prod.splits option.splits)

lemma flush_reader_alert_eq:
  "flush_reader_alert E c w =
     (case record_write E c TLS_ALERT (take 2 (written (reader_alert_out c))) of
        Inl e \<Rightarrow> (Return (Inl e), c, w)
      | Inr (s, r) \<Rightarrow>
          (Continue (),
           c\<lparr>secure := s, out := (out c)\<lparr>written := written (out c) @ r\<rparr>,
             reader_alert_out := (reader_alert_out c)\<lparr>written := [], read_cursor := 0\<rparr>,
             closing := True\<rparr>,
           w\<lparr>trace := trace w @ [Rec TLS_ALERT (take 2 (written (reader_alert_out c)))]\<rparr>))"
  by (simp add: flush_reader_alert_def s2n_record_write_def s2n_stuffer_rewrite_def Let_def
           split: sum.splits prod.splits)

lemma flush_writer_alert_eq:
  "flush_writer_alert E c w =
     (case record_write E c TLS_ALERT (take 2 (written (writer_alert_out c))) of
        Inl e \<Rightarrow> (Return (Inl e), c, w)
      | Inr (s, r) \<Rightarrow>
          (Continue (),
           c\<lparr>secure := s, out := (out c)\<lparr>written := written (out c) @ r\<rparr>,
             writer_alert_out := (writer_alert_out c)\<lparr>written := [], read_cursor := 0\<rparr>,
             closing := True\<rparr>,
           w\<lparr>trace := trace w @ [Rec TLS_ALERT (take 2 (written (writer_alert_out c)))]\<rparr>))"
  by (simp add: flush_writer_alert_def s2n_record_write_def s2n_stuffer_rewrite_def Let_def
           split: sum.splits prod.splits)

lemmas flush_blocks = flush_reset_out_eq flush_closing_eq flush_reader_alert_eq flush_writer_alert_eq

lemma flush_pass_more:
  assumes "flush_pass E pmore c w = Some (fl, m, c', w')"
  shows "(fl = Return (Inr ()) \<longrightarrow> m = 0) \<and> (fl \<noteq> Return (Inr ()) \<longrightarrow> m = pmore)"
  using assms
  by (auto simp: flush_pass_def flush_blocks
           split: option.splits sum.splits prod.splits if_splits)

lemma flush_pass_done:
  assumes "flush_pass E pmore c w = Some (Return (Inr ()), m, c', w')"
  shows "s2n_stuffer_data_available (out c') = 0
       \<and> s2n_stuffer_data_available (reader_alert_out c') \<noteq> 2
       \<and> s2n_stuffer_data_available (writer_alert_out c') \<noteq> 2"
  using assms
  by (auto simp: flush_pass_def flush_blocks s2n_stuffer_data_available_def
           split: option.splits sum.splits prod.splits if_splits)

lemma flush_pass_trace:
  assumes "flush_pass E pmore c w = Some (fl, m, c', w')"
  shows "\<exists>evs. trace w' = trace w @ evs"
  using assms
  by (auto simp: flush_pass_def flush_blocks
           split: option.splits sum.splits prod.splits if_splits
           dest!: flush_write_pending_effect)

lemma flush_WRITE_more:
  assumes "flush_WRITE E pmore c w = Some y"
  shows "(\<forall>e. fst y = Inl e \<longrightarrow> fst (snd y) = pmore) \<and> (fst y = Inr () \<longrightarrow> fst (snd y) = 0)"
proof (rule flush_WRITE.raw_induct
    [where P = "\<lambda>E pmore c w y. (\<forall>e. fst y = Inl e \<longrightarrow> fst (snd y) = pmore) \<and> (fst y = Inr () \<longrightarrow> fst (snd y) = 0)",
     OF _ assms], goal_cases)
  case (1 f E pmore c w y)
  from "1"(2) show ?case
    by (auto split: option.splits prod.splits flow.splits dest!: flush_pass_more "1"(1))
qed

lemma flush_WRITE_done:
  assumes "flush_WRITE E pmore c w = Some y"
  shows "fst y = Inr () \<longrightarrow>
     (case y of (r, m, c', w') \<Rightarrow> s2n_stuffer_data_available (out c') = 0
       \<and> s2n_stuffer_data_available (reader_alert_out c') \<noteq> 2
       \<and> s2n_stuffer_data_available (writer_alert_out c') \<noteq> 2)"
proof (rule flush_WRITE.raw_induct
    [where P = "\<lambda>E pmore c w y. fst y = Inr () \<longrightarrow>
     (case y of (r, m, c', w') \<Rightarrow> s2n_stuffer_data_available (out c') = 0
       \<and> s2n_stuffer_data_available (reader_alert_out c') \<noteq> 2
       \<and> s2n_stuffer_data_available (writer_alert_out c') \<noteq> 2)",
     OF _ assms], goal_cases)
  case (1 f E pmore c w y)
  from "1"(2) show ?case
    by (auto split: option.splits prod.splits flow.splits dest!: flush_pass_done "1"(1))
qed

lemma flush_WRITE_trace:
  assumes "flush_WRITE E pmore c w = Some y"
  shows "\<exists>evs. trace (snd (snd (snd y))) = trace w @ evs"
proof (rule flush_WRITE.raw_induct
    [where P = "\<lambda>E pmore c w y. \<exists>evs. trace (snd (snd (snd y))) = trace w @ evs",
     OF _ assms], goal_cases)
  case (1 f E pmore c w y)
  from "1"(2) show ?case
    by (auto split: option.splits prod.splits flow.splits dest!: flush_pass_trace "1"(1))
qed


text \<open>Whatever way the loop under \<^verbatim>\<open>WRITE\<close> ends, what it has transmitted and what it has
  left unsent make up what was unsent before.\<close>

lemma flush_write_pending_progress:
  "flush_write_pending c w = Some (r, c', w') \<Longrightarrow>
     \<exists>txs. trace w' = trace w @ map Tx txs \<and> concat txs @ unsent (out c') = unsent (out c)"
proof (induction sc \<equiv> "script w" arbitrary: c w)
  case Nil
  from Nil.prems Nil.hyps[symmetric] have "c' = c \<and> w' = w"
    by (subst (asm) flush_write_pending.simps)
       (auto simp: s2n_stuffer_send_to_fd_def split: if_splits)
  then have "trace w' = trace w @ map Tx [] \<and> concat [] @ unsent (out c') = unsent (out c)"
    by simp
  then show ?case by blast
next
  case (Cons ev rest)
  show ?case
  proof (cases "s2n_stuffer_data_available (out c) \<noteq> 0")
    case False
    with Cons.prems have "c' = c \<and> w' = w"
      by (subst (asm) flush_write_pending.simps) auto
    then have "trace w' = trace w @ map Tx [] \<and> concat [] @ unsent (out c') = unsent (out c)"
      by simp
    then show ?thesis by blast
  next
    case True
    note avail = this
    show ?thesis
    proof (cases ev)
      case (Refuse e)
      with Cons.prems Cons.hyps(2)[symmetric] avail
      have "out c' = out c \<and> trace w' = trace w"
        by (subst (asm) flush_write_pending.simps)
           (auto simp: s2n_stuffer_send_to_fd_def)
      then have "trace w' = trace w @ map Tx [] \<and> concat [] @ unsent (out c') = unsent (out c)"
        by simp
      then show ?thesis by blast
    next
      case (Accept n)
      define k where "k = min n (s2n_stuffer_data_available (out c))"
      define c1 where "c1 = c\<lparr>out := (out c)\<lparr>read_cursor := read_cursor (out c) + k\<rparr>,
                               wire_bytes_out := wire_bytes_out c + of_nat k\<rparr>"
      define w1 where "w1 = w\<lparr>script := rest, trace := trace w @ [Tx (take k (unsent (out c)))]\<rparr>"
      from Cons.prems Cons.hyps(2)[symmetric] avail Accept
      have step: "flush_write_pending c1 w1 = Some (r, c', w')"
        by (subst (asm) flush_write_pending.simps)
           (simp add: s2n_stuffer_send_to_fd_def c1_def w1_def k_def unsent_def)
      have "rest = script w1" by (simp add: w1_def)
      from Cons.hyps(1)[OF this step]
      obtain txs where ih:
        "trace w' = trace w1 @ map Tx txs"
        "concat txs @ unsent (out c') = unsent (out c1)"
        by blast
      have "unsent (out c1) = drop k (unsent (out c))"
        by (simp add: unsent_def c1_def add.commute)
      with ih(2) have "concat (take k (unsent (out c)) # txs) @ unsent (out c') = unsent (out c)"
        by simp
      moreover from ih(1) have "trace w' = trace w @ map Tx (take k (unsent (out c)) # txs)"
        by (simp add: w1_def)
      ultimately show ?thesis by blast
    qed
  qed
qed

lemma unsent_none: "s2n_stuffer_data_available st = 0 \<Longrightarrow> unsent st = []"
  by (simp add: s2n_stuffer_data_available_def unsent_def)

text \<open>A pass that starts on a connection that is not closing, an alert pending: it ends in an
  error with nothing but transmissions in the trace, the connection still not closing and
  the alerts as they were; or it has handed the first alert to the record writer, left the
  record in \<^verbatim>\<open>conn->out\<close>, and goes back to \<^verbatim>\<open>WRITE\<close> closing.\<close>

lemma flush_pass_stage:
  assumes p: "flush_pass E pmore c w = Some (fl, m, c', w')"
    and nc: "\<not> closing c"
    and pend: "s2n_stuffer_data_available (reader_alert_out c) = 2
             \<or> s2n_stuffer_data_available (writer_alert_out c) = 2"
  shows "\<exists>txs0. ((\<exists>e. fl = Return (Inl e)) \<and> trace w' = trace w @ map Tx txs0
                 \<and> \<not> closing c' \<and> reader_alert_out c' = reader_alert_out c
                 \<and> writer_alert_out c' = writer_alert_out c)
            \<or> (fl = Continue () \<and> m = pmore \<and> closing c' \<and> read_cursor (out c') = 0
                 \<and> (\<exists>cx s. record_write E cx TLS_ALERT (first_alert c) = Inr (s, written (out c')))
                 \<and> trace w' = trace w @ map Tx txs0 @ [Rec TLS_ALERT (first_alert c)])"
proof -
  from p obtain r1 c1 w1 where d: "flush_write_pending c w = Some (r1, c1, w1)"
    by (auto simp: flush_pass_def split: option.splits)
  from flush_write_pending_effect [OF d] obtain txs0 where
    tr: "trace w1 = trace w @ map Tx txs0" by blast
  note f = flush_write_pending_fields [OF d]
  show ?thesis
  proof (cases r1)
    case (Inl e)
    with p d have "fl = Return (Inl e) \<and> c' = c1 \<and> w' = w1"
      by (auto simp: flush_pass_def)
    with tr f nc show ?thesis by auto
  next
    case (Inr u)
    let ?c3 = "c1\<lparr>out := (out c1)\<lparr>written := [], read_cursor := 0\<rparr>\<rparr>"
    from p d Inr nc f pend
    have stage: "(case record_write E ?c3 TLS_ALERT (first_alert c) of
               Inl e \<Rightarrow> fl = Return (Inl e) \<and> w' = w1 \<and> c' = ?c3
             | Inr (s, rcd) \<Rightarrow> fl = Continue () \<and> m = pmore \<and> closing c'
                  \<and> out c' = (out c1)\<lparr>written := rcd, read_cursor := 0\<rparr>
                  \<and> w' = w1\<lparr>trace := trace w1 @ [Rec TLS_ALERT (first_alert c)]\<rparr>)"
      by (auto simp: flush_pass_def flush_blocks first_alert_def split: sum.splits)
    show ?thesis
    proof (cases "record_write E ?c3 TLS_ALERT (first_alert c)")
      case (Inl e)
      with stage tr f nc have "(\<exists>e. fl = Return (Inl e)) \<and> trace w' = trace w @ map Tx txs0
                 \<and> \<not> closing c' \<and> reader_alert_out c' = reader_alert_out c
                 \<and> writer_alert_out c' = writer_alert_out c"
        by simp
      then show ?thesis by blast
    next
      case (Inr sr)
      obtain s rcd where sr: "sr = (s, rcd)" by (cases sr)
      with stage Inr tr have
        "fl = Continue ()" "m = pmore" "closing c'" "read_cursor (out c') = 0"
        "written (out c') = rcd"
        "trace w' = trace w @ map Tx txs0 @ [Rec TLS_ALERT (first_alert c)]"
        by simp_all
      moreover from Inr sr \<open>written (out c') = rcd\<close>
      have "\<exists>cx s. record_write E cx TLS_ALERT (first_alert c) = Inr (s, written (out c'))"
        by blast
      ultimately show ?thesis by blast
    qed
  qed
qed

text \<open>A pass that starts on a closing connection: it ends in a write error, the connection
  still closing and the bytes not yet transmitted still in \<^verbatim>\<open>conn->out\<close>; or it marks the
  connection closed after having transmitted all of \<^verbatim>\<open>conn->out\<close>.\<close>

lemma flush_pass_close:
  assumes p: "flush_pass E pmore c w = Some (fl, m, c', w')"
    and cl: "closing c"
  shows "\<exists>txs. ((\<exists>e. fl = Return (Inl e)) \<and> trace w' = trace w @ map Tx txs
                 \<and> closing c' \<and> concat txs @ unsent (out c') = unsent (out c))
            \<or> (concat txs = unsent (out c) \<and> (\<exists>post. trace w' = trace w @ map Tx txs @ MarkClosed # post))"
proof -
  from p obtain r1 c1 w1 where d: "flush_write_pending c w = Some (r1, c1, w1)"
    by (auto simp: flush_pass_def split: option.splits)
  from flush_write_pending_progress [OF d] obtain txs where
    tr: "trace w1 = trace w @ map Tx txs" "concat txs @ unsent (out c1) = unsent (out c)" by blast
  note f = flush_write_pending_fields [OF d]
  show ?thesis
  proof (cases r1)
    case (Inl e)
    with p d have "fl = Return (Inl e) \<and> c' = c1 \<and> w' = w1"
      by (auto simp: flush_pass_def)
    with tr f cl show ?thesis by auto
  next
    case (Inr u)
    with flush_write_pending_effect [OF d] have "s2n_stuffer_data_available (out c1) = 0" by simp
    from unsent_none [OF this] tr(2) have "concat txs = unsent (out c)" by simp
    moreover from p d Inr cl f tr(1)
    have "\<exists>post. trace w' = trace w @ map Tx txs @ MarkClosed # post"
      by (auto simp: flush_pass_def flush_blocks split: sum.splits option.splits if_splits)
    ultimately show ?thesis by blast
  qed
qed

lemma flush_WRITE_unfold:
  assumes "flush_WRITE E pmore c w = Some (r, m, c', w')"
  obtains (ret) "flush_pass E pmore c w = Some (Return r, m, c', w')"
    | (again) pm1 c1 w1 where "flush_pass E pmore c w = Some (Continue (), pm1, c1, w1)"
        and "flush_WRITE E pm1 c1 w1 = Some (r, m, c', w')"
  using assms
  by (subst (asm) flush_WRITE.simps) (auto split: option.splits prod.splits flow.splits)

text \<open>A call entered on a closing connection.\<close>

lemma flush_WRITE_closing:
  assumes fw: "flush_WRITE E pmore c w = Some (r, m, c', w')"
    and cl: "closing c"
  shows "\<exists>txs. ((\<exists>e. r = Inl e) \<and> trace w' = trace w @ map Tx txs
                 \<and> closing c' \<and> concat txs @ unsent (out c') = unsent (out c))
            \<or> (concat txs = unsent (out c) \<and> (\<exists>post. trace w' = trace w @ map Tx txs @ MarkClosed # post))"
  using fw
proof (cases rule: flush_WRITE_unfold)
  case ret
  from flush_pass_close [OF ret cl] show ?thesis by auto
next
  case (again pm1 c1 w1)
  from flush_pass_close [OF again(1) cl] obtain txs post where
    a: "concat txs = unsent (out c)" "trace w1 = trace w @ map Tx txs @ MarkClosed # post"
    by auto
  from flush_WRITE_trace [OF again(2)] obtain more_evs where
    "trace w' = trace w1 @ more_evs" by auto
  with a(2) have "trace w' = trace w @ map Tx txs @ MarkClosed # (post @ more_evs)" by simp
  with a(1) show ?thesis by blast
qed

text \<open>A call entered on a connection that is not closing, an alert pending.\<close>

lemma flush_WRITE_pending:
  assumes fw: "flush_WRITE E pmore c w = Some (r, m, c', w')"
    and nc: "\<not> closing c"
    and pend: "s2n_stuffer_data_available (reader_alert_out c) = 2
             \<or> s2n_stuffer_data_available (writer_alert_out c) = 2"
  shows "\<exists>evs. trace w' = trace w @ evs
           \<and> ((\<exists>e. r = Inl e) \<and> alert_waiting c c' evs
              \<or> (\<exists>e. r = Inl e) \<and> alert_in_flight E (first_alert c) c' evs
              \<or> alert_then_closed E (first_alert c) evs)"
  using fw
proof (cases rule: flush_WRITE_unfold)
  case ret
  from flush_pass_stage [OF ret nc pend] obtain txs0 e where
    "r = Inl e" "trace w' = trace w @ map Tx txs0" "\<not> closing c'"
    "reader_alert_out c' = reader_alert_out c" "writer_alert_out c' = writer_alert_out c"
    by auto
  then have "trace w' = trace w @ map Tx txs0 \<and> (\<exists>e. r = Inl e) \<and> alert_waiting c c' (map Tx txs0)"
    by (auto simp: alert_waiting_def)
  then show ?thesis by blast
next
  case (again pm1 c1 w1)
  from flush_pass_stage [OF again(1) nc pend] obtain txs0 cx s where
    st: "closing c1" "read_cursor (out c1) = 0"
      "record_write E cx TLS_ALERT (first_alert c) = Inr (s, written (out c1))"
      "trace w1 = trace w @ map Tx txs0 @ [Rec TLS_ALERT (first_alert c)]"
    by auto
  from st(2) have un: "unsent (out c1) = written (out c1)" by (simp add: unsent_def)
  from flush_WRITE_closing [OF again(2) st(1)] un obtain txs where
    alt: "((\<exists>e. r = Inl e) \<and> trace w' = trace w1 @ map Tx txs
                 \<and> closing c' \<and> concat txs @ unsent (out c') = written (out c1))
            \<or> (concat txs = written (out c1) \<and> (\<exists>post. trace w' = trace w1 @ map Tx txs @ MarkClosed # post))"
    by auto
  then show ?thesis
  proof
    assume a: "(\<exists>e. r = Inl e) \<and> trace w' = trace w1 @ map Tx txs
                 \<and> closing c' \<and> concat txs @ unsent (out c') = written (out c1)"
    define evs where "evs = map Tx txs0 @ Rec TLS_ALERT (first_alert c) # map Tx txs"
    from a st(4) have "trace w' = trace w @ evs" by (simp add: evs_def)
    moreover from a st(3) have "alert_in_flight E (first_alert c) c' evs"
      unfolding alert_in_flight_def evs_def by blast
    ultimately show ?thesis using a by blast
  next
    assume a: "concat txs = written (out c1) \<and> (\<exists>post. trace w' = trace w1 @ map Tx txs @ MarkClosed # post)"
    then obtain post where tr: "trace w' = trace w1 @ map Tx txs @ MarkClosed # post" by blast
    define evs where
      "evs = map Tx txs0 @ Rec TLS_ALERT (first_alert c) # map Tx txs @ MarkClosed # post"
    from tr st(4) have "trace w' = trace w @ evs" by (simp add: evs_def)
    moreover from a st(3) have "alert_then_closed E (first_alert c) evs"
      unfolding alert_then_closed_def evs_def by blast
    ultimately show ?thesis by blast
  qed
qed

text \<open>
  C10. \<^verbatim>\<open>s2n_flush\<close> stores 1 in \<^verbatim>\<open>*more\<close> on entry and 0 only on the path that returns 0:
  whatever the caller's variable held, after a return of \<open>-1\<close> it holds 1, and after a
  return of 0 it holds 0.
\<close>

theorem flush_more_on_error:
  assumes "s2n_flush E c w more0 = Some (r, m, c', w')"
  shows "(\<forall>e. r = Inl e \<longrightarrow> m = 1) \<and> (r = Inr () \<longrightarrow> m = 0)"
  using flush_WRITE_more [of E 1 c w "(r, m, c', w')"] assms
  by (simp add: s2n_flush_def)


text \<open>On the test bed, three bytes unsent and a transport that would block: the call
  returns \<open>-1\<close> and the caller's variable, 0 before, is 1.\<close>

theorem flush_more_on_error_witness:
  "s2n_flush ex_env (ex_conn\<lparr>out := ex_stuffer\<lparr>written := [1, 2, 3]\<rparr>\<rparr>)
       (ex_world\<lparr>script := [Refuse EWOULDBLOCK]\<rparr>) 0
     = Some (Inl S2N_ERR_OTHER, 1, ex_conn\<lparr>out := ex_stuffer\<lparr>written := [1, 2, 3]\<rparr>\<rparr>, ex_world)"
proof -
  have "s2n_flush ex_env (ex_conn\<lparr>out := ex_stuffer\<lparr>written := [1, 2, 3]\<rparr>\<rparr>)
       (ex_world\<lparr>script := [Refuse EWOULDBLOCK]\<rparr>) 0
     = Some (Inl S2N_ERR_OTHER, fst (snd (the (s2n_flush ex_env (ex_conn\<lparr>out := ex_stuffer\<lparr>written := [1, 2, 3]\<rparr>\<rparr>)
       (ex_world\<lparr>script := [Refuse EWOULDBLOCK]\<rparr>) 0))),
         ex_conn\<lparr>out := ex_stuffer\<lparr>written := [1, 2, 3]\<rparr>\<rparr>, ex_world)"
    by (simp add: eval_defs ex_defs)
  from flush_more_on_error [OF this] this show ?thesis by simp
qed

subsection \<open>\<open>s2n_send\<close>\<close>

lemma app_chunks_append: "app_chunks (xs @ ys) = app_chunks xs @ app_chunks ys"
  by (induction xs rule: app_chunks.induct) simp_all

lemma app_chunks_Tx: "app_chunks (map Tx txs) = []"
  by (induction txs) simp_all

lemma chunk_size_value:
  "chunk_size E c sz mps cbc =
     (if legacy_cbc E c \<and> \<not> cbc \<and> 1 < min (sz mod 2 ^ 32) mps then (1, True)
      else (min (sz mod 2 ^ 32) mps, cbc))"
  by (auto simp: chunk_size_def legacy_cbc_def Let_def min_def)

lemma chunk_size_le: "fst (chunk_size E c sz mps cbc) \<le> sz"
proof -
  have "sz mod 2 ^ 32 \<le> sz" by (rule mod_less_eq_dividend)
  then show ?thesis by (auto simp: chunk_size_value min_def)
qed

text \<open>One iteration of \<^verbatim>\<open>while (size)\<close>, the chunk being of size \<open>n\<close>: the fields it leaves alone,
  and the three ways it can end. A record written is one application-data chunk in the
  trace and \<open>n\<close> more bytes on the byte counter.\<close>

lemma send_chunk_effect:
  assumes sc: "send_chunk E mps buf bw cbc c w = Some (fl, c', w')"
    and cs: "chunk_size E c (length buf) mps cbc = (n, cbc1)"
  shows "config c' = config c \<and> curr_max_fragment_size c' = curr_max_fragment_size c
       \<and> actual_protocol_version c' = actual_protocol_version c \<and> cipher_type c' = cipher_type c
       \<and> closed c' = closed c \<and> closing c' = closing c \<and> now w' = now w
       \<and> (\<exists>evs. trace w' = trace w @ evs
           \<and> ((\<exists>e. fl = Return (Inl e)) \<and> (app_chunks evs = [] \<or> app_chunks evs = [take n buf])
              \<or> fl = Return (Inr (bw + n)) \<and> app_chunks evs = [take n buf]
                 \<and> dyn_record_sz_bytes_out c' = dyn_record_sz_bytes_out c + of_nat n
              \<or> fl = Continue (drop n buf, bw + n, cbc1) \<and> app_chunks evs = [take n buf]
                 \<and> dyn_record_sz_bytes_out c' = dyn_record_sz_bytes_out c + of_nat n))"
proof -
  let ?c0 = "c\<lparr>out := (out c)\<lparr>written := [], read_cursor := 0\<rparr>\<rparr>"
  show ?thesis
  proof (cases "record_write E ?c0 TLS_APPLICATION_DATA (take n buf)")
    case (Inl e)
    with sc cs have "fl = Return (Inl e) \<and> trace w' = trace w @ [] \<and> c' = ?c0 \<and> w' = w"
      by (simp add: send_chunk_def s2n_stuffer_rewrite_def s2n_record_write_def)
    then show ?thesis by (intro conjI exI [of _ "[]"]) simp_all
  next
    case (Inr sr)
    obtain s rcd where sr: "sr = (s, rcd)" by (cases sr)
    let ?c2 = "?c0\<lparr>secure := s, out := (out ?c0)\<lparr>written := written (out ?c0) @ rcd\<rparr>,
                  dyn_record_sz_bytes_out := dyn_record_sz_bytes_out c + of_nat n\<rparr>"
    let ?w1 = "w\<lparr>trace := trace w @ [Rec TLS_APPLICATION_DATA (take n buf)]\<rparr>"
    from sc cs Inr sr obtain r3 where
      d: "send_write_pending ?c2 ?w1 = Some (r3, c', w')"
      and fl: "fl = (case r3 of Inl e \<Rightarrow> if e = EWOULDBLOCK then Return (Inr (bw + n)) else Return (Inl S2N_ERR_OTHER)
                    | Inr u \<Rightarrow> Continue (drop n buf, bw + n, cbc1))"
      by (auto simp: send_chunk_def s2n_stuffer_rewrite_def s2n_record_write_def Let_def
             split: option.splits sum.splits if_splits)
    from send_write_pending_effect [OF d] obtain txs where
      "trace w' = trace ?w1 @ map Tx txs" and nw: "now w' = now ?w1" by blast
    then have tr: "trace w' = trace w @ (Rec TLS_APPLICATION_DATA (take n buf) # map Tx txs)"
      by simp
    have ac: "app_chunks (Rec TLS_APPLICATION_DATA (take n buf) # map Tx txs) = [take n buf]"
      by (simp add: app_chunks_Tx)
    note f = send_write_pending_fields [OF d]
    from f(7) have dy: "dyn_record_sz_bytes_out c' = dyn_record_sz_bytes_out c + of_nat n" by simp
    have frame: "config c' = config c \<and> curr_max_fragment_size c' = curr_max_fragment_size c
       \<and> actual_protocol_version c' = actual_protocol_version c \<and> cipher_type c' = cipher_type c
       \<and> closed c' = closed c \<and> closing c' = closing c \<and> now w' = now w"
      using f nw by simp
    have "\<exists>evs. trace w' = trace w @ evs
           \<and> ((\<exists>e. fl = Return (Inl e)) \<and> (app_chunks evs = [] \<or> app_chunks evs = [take n buf])
              \<or> fl = Return (Inr (bw + n)) \<and> app_chunks evs = [take n buf]
                 \<and> dyn_record_sz_bytes_out c' = dyn_record_sz_bytes_out c + of_nat n
              \<or> fl = Continue (drop n buf, bw + n, cbc1) \<and> app_chunks evs = [take n buf]
                 \<and> dyn_record_sz_bytes_out c' = dyn_record_sz_bytes_out c + of_nat n)"
      using fl tr ac dy
      by (intro exI [of _ "Rec TLS_APPLICATION_DATA (take n buf) # map Tx txs"])
         (auto split: sum.splits if_splits)
    with frame show ?thesis by blast
  qed
qed

lemma send_loop_unfold:
  assumes "send_loop E mps buf bw cbc pm c w = Some (r, m, c', w')"
  obtains (exhausted) "buf = []" "r = Inr bw" "m = 0" "c' = c" "w' = w"
    | (ret) "buf \<noteq> []" "send_chunk E mps buf bw cbc c w = Some (Return r, c', w')" "m = pm"
    | (again) buf1 bw1 cbc1 c1 w1 where "buf \<noteq> []"
        "send_chunk E mps buf bw cbc c w = Some (Continue (buf1, bw1, cbc1), c1, w1)"
        "send_loop E mps buf1 bw1 cbc1 pm c1 w1 = Some (r, m, c', w')"
  using assms
  by (subst (asm) send_loop.simps) (auto split: option.splits prod.splits flow.splits if_splits)

lemma send_loop_frame:
  assumes "send_loop E mps buf bw cbc pm c w = Some y"
  shows "case y of (r, m, c', w') \<Rightarrow>
          config c' = config c \<and> curr_max_fragment_size c' = curr_max_fragment_size c
          \<and> legacy_cbc E c' = legacy_cbc E c
          \<and> (\<forall>k. r = Inr k \<longrightarrow> dyn_record_sz_bytes_out c' + of_nat bw = dyn_record_sz_bytes_out c + of_nat k)"
proof (rule send_loop.raw_induct
    [where P = "\<lambda>E mps buf bw cbc pm c w y. case y of (r, m, c', w') \<Rightarrow>
          config c' = config c \<and> curr_max_fragment_size c' = curr_max_fragment_size c
          \<and> legacy_cbc E c' = legacy_cbc E c
          \<and> (\<forall>k. r = Inr k \<longrightarrow> dyn_record_sz_bytes_out c' + of_nat bw = dyn_record_sz_bytes_out c + of_nat k)",
     OF _ assms], goal_cases)
  case (1 f E mps buf bw cbc pm c w y)
  obtain n cbc1 where cs: "chunk_size E c (length buf) mps cbc = (n, cbc1)"
    by (cases "chunk_size E c (length buf) mps cbc")
  show ?case
  proof (cases "length buf \<noteq> 0")
    case False
    with "1"(2) show ?thesis by auto
  next
    case True
    with "1"(2) obtain fl c1 w1 where
      sc: "send_chunk E mps buf bw cbc c w = Some (fl, c1, w1)"
      by (auto split: option.splits)
    note eff = send_chunk_effect [OF sc cs]
    show ?thesis
    proof (cases fl)
      case (Return r)
      with "1"(2) True sc eff show ?thesis
        by (auto simp: legacy_cbc_def)
    next
      case (Continue k)
      obtain buf1 bw1 cbc2 where k: "k = (buf1, bw1, cbc2)" by (cases k)
      with "1"(2) True sc Continue have "f E mps buf1 bw1 cbc2 pm c1 w1 = Some y" by simp
      from "1"(1) [OF this] eff Continue k show ?thesis
        by (auto simp: legacy_cbc_def algebra_simps)
    qed
  qed
qed


lemma spec_chunk_sizes_no_split:
  "min len mps \<le> 1 \<Longrightarrow> spec_chunk_sizes split len mps ns = spec_chunk_sizes False len mps ns"
  by (cases ns) auto

text \<open>The chunks of the loop when the input is shorter than \<open>2\<^sup>3\<^sup>2\<close> bytes, so that \<^verbatim>\<open>in.size\<close>
  holds all of \<^verbatim>\<open>size\<close>.\<close>

lemma send_loop_chunks:
  assumes "send_loop E mps buf bw cbc pm c w = Some y"
  shows "length buf < 2 ^ 32 \<longrightarrow>
         (\<exists>evs. trace (snd (snd (snd y))) = trace w @ evs
           \<and> spec_chunk_sizes (legacy_cbc E c \<and> \<not> cbc) (length buf) mps (map length (app_chunks evs)))"
proof (rule send_loop.raw_induct
    [where P = "\<lambda>E mps buf bw cbc pm c w y. length buf < 2 ^ 32 \<longrightarrow>
         (\<exists>evs. trace (snd (snd (snd y))) = trace w @ evs
           \<and> spec_chunk_sizes (legacy_cbc E c \<and> \<not> cbc) (length buf) mps (map length (app_chunks evs)))",
     OF _ assms], goal_cases)
  case (1 f E mps buf bw cbc pm c w y)
  show ?case
  proof
    assume small: "length buf < 2 ^ 32"
    then have md: "length buf mod 2 ^ 32 = length buf" by simp
    obtain n cbc1 where cs: "chunk_size E c (length buf) mps cbc = (n, cbc1)"
      by (cases "chunk_size E c (length buf) mps cbc")
    from chunk_size_le [of E c "length buf" mps cbc] cs have nle: "n \<le> length buf" by simp
    from cs have nval: "n = (if (legacy_cbc E c \<and> \<not> cbc) \<and> 1 < min (length buf) mps then 1 else min (length buf) mps)"
      unfolding chunk_size_value md by (auto split: if_splits)
    have one: "spec_chunk_sizes (legacy_cbc E c \<and> \<not> cbc) (length buf) mps [length (take n buf)]"
      using nle nval by simp
    show "\<exists>evs. trace (snd (snd (snd y))) = trace w @ evs
           \<and> spec_chunk_sizes (legacy_cbc E c \<and> \<not> cbc) (length buf) mps (map length (app_chunks evs))"
    proof (cases "length buf \<noteq> 0")
      case False
      with "1"(2) have "trace (snd (snd (snd y))) = trace w @ []" by auto
      then show ?thesis by (intro exI [of _ "[]"]) simp
    next
      case True
      with "1"(2) obtain fl c1 w1 where
        sc: "send_chunk E mps buf bw cbc c w = Some (fl, c1, w1)"
        by (auto split: option.splits)
      from send_chunk_effect [OF sc cs] obtain evs0 where
        fr: "actual_protocol_version c1 = actual_protocol_version c" "cipher_type c1 = cipher_type c"
        and tr0: "trace w1 = trace w @ evs0"
        and alt: "(\<exists>e. fl = Return (Inl e)) \<and> (app_chunks evs0 = [] \<or> app_chunks evs0 = [take n buf])
                \<or> fl = Return (Inr (bw + n)) \<and> app_chunks evs0 = [take n buf]
                \<or> fl = Continue (drop n buf, bw + n, cbc1) \<and> app_chunks evs0 = [take n buf]"
        by auto
      show ?thesis
      proof (cases fl)
        case (Return r)
        with "1"(2) True sc have y: "snd (snd (snd y)) = w1" by auto
        from alt Return have "app_chunks evs0 = [] \<or> app_chunks evs0 = [take n buf]" by auto
        with one have "spec_chunk_sizes (legacy_cbc E c \<and> \<not> cbc) (length buf) mps (map length (app_chunks evs0))"
          by auto
        with y tr0 show ?thesis by auto
      next
        case (Continue k)
        with alt have k: "k = (drop n buf, bw + n, cbc1)" and ac: "app_chunks evs0 = [take n buf]"
          by auto
        with "1"(2) True sc Continue have "f E mps (drop n buf) (bw + n) cbc1 pm c1 w1 = Some y" by simp
        moreover from small have "length (drop n buf) < 2 ^ 32" by simp
        ultimately obtain evs1 where
          tr1: "trace (snd (snd (snd y))) = trace w1 @ evs1"
          and ih: "spec_chunk_sizes (legacy_cbc E c1 \<and> \<not> cbc1) (length (drop n buf)) mps (map length (app_chunks evs1))"
          using "1"(1) by blast
        have leg: "legacy_cbc E c1 = legacy_cbc E c" using fr by (simp add: legacy_cbc_def)
        have rest: "spec_chunk_sizes False (length buf - n) mps (map length (app_chunks evs1))"
        proof (cases "legacy_cbc E c1 \<and> \<not> cbc1")
          case False
          with ih show ?thesis by simp
        next
          case True
          with cs leg have "min (length buf) mps \<le> 1"
            unfolding chunk_size_value md by (auto split: if_splits)
          then have "min (length buf - n) mps \<le> 1" by (auto simp: min_def split: if_splits)
          from spec_chunk_sizes_no_split [OF this, of "legacy_cbc E c1 \<and> \<not> cbc1" "map length (app_chunks evs1)"] ih
          show ?thesis by simp
        qed
        have "spec_chunk_sizes (legacy_cbc E c \<and> \<not> cbc) (length buf) mps (map length (app_chunks (evs0 @ evs1)))"
          using one rest ac nle by (simp add: app_chunks_append)
        with tr0 tr1 show ?thesis by (intro exI [of _ "evs0 @ evs1"]) simp
      qed
    qed
  qed
qed

lemma flush_app_chunks_pass:
  assumes "flush_pass E pmore c w = Some (fl, m, c', w')"
  shows "\<exists>evs. trace w' = trace w @ evs \<and> app_chunks evs = []"
proof -
  from assms obtain r1 c1 w1 where d: "flush_write_pending c w = Some (r1, c1, w1)"
    by (auto simp: flush_pass_def split: option.splits)
  from flush_write_pending_effect [OF d] obtain txs where
    tr: "trace w1 = trace w @ map Tx txs" by blast
  have "\<exists>evs. trace w' = trace w1 @ evs \<and> app_chunks evs = []"
    using assms d
    by (auto simp: flush_pass_def flush_blocks split: sum.splits if_splits option.splits)
  then obtain evs where "trace w' = trace w1 @ evs" "app_chunks evs = []" by blast
  with tr show ?thesis
    by (intro exI [of _ "map Tx txs @ evs"]) (simp add: app_chunks_append app_chunks_Tx)
qed

lemma flush_WRITE_app_chunks:
  assumes "flush_WRITE E pmore c w = Some y"
  shows "\<exists>evs. trace (snd (snd (snd y))) = trace w @ evs \<and> app_chunks evs = []"
proof (rule flush_WRITE.raw_induct
    [where P = "\<lambda>E pmore c w y. \<exists>evs. trace (snd (snd (snd y))) = trace w @ evs \<and> app_chunks evs = []",
     OF _ assms], goal_cases)
  case (1 f E pmore c w y)
  from "1"(2) obtain fl m1 c1 w1 where p: "flush_pass E pmore c w = Some (fl, m1, c1, w1)"
    by (auto split: option.splits)
  from flush_app_chunks_pass [OF p] obtain evs0 where
    e0: "trace w1 = trace w @ evs0" "app_chunks evs0 = []" by blast
  show ?case
  proof (cases fl)
    case (Return r)
    with "1"(2) p e0 show ?thesis by auto
  next
    case (Continue u)
    with "1"(2) p have "f E m1 c1 w1 = Some y" by simp
    from "1"(1) [OF this] obtain evs1 where
      "trace (snd (snd (snd y))) = trace w1 @ evs1" "app_chunks evs1 = []" by blast
    with e0 show ?thesis
      by (intro exI [of _ "evs0 @ evs1"]) (simp add: app_chunks_append)
  qed
qed

text \<open>
  C8. A call of \<^verbatim>\<open>s2n_send\<close> on a connection whose \<^verbatim>\<open>closed\<close> flag is set returns \<open>-1\<close> with
  \<^verbatim>\<open>S2N_ERR_CLOSED\<close> at once: the connection, the world (no flush, no record, no write) and
  the caller's \<^verbatim>\<open>more\<close> are as they were.
\<close>

theorem send_on_closed_connection:
  assumes "closed c"
  shows "s2n_send E c w buf more0 = Some (Inl S2N_ERR_CLOSED, more0, c, w)"
  using assms by (simp add: s2n_send_def)


theorem send_on_closed_connection_witness:
  "s2n_send ex_env (ex_conn\<lparr>closed := True\<rparr>) (ex_world\<lparr>script := [Accept 100]\<rparr>) [1, 2, 3] 0
     = Some (Inl S2N_ERR_CLOSED, 0, ex_conn\<lparr>closed := True\<rparr>, ex_world\<lparr>script := [Accept 100]\<rparr>)"
proof -
  have "closed (ex_conn\<lparr>closed := True\<rparr>)" by simp
  from send_on_closed_connection [OF this] show ?thesis .
qed

text \<open>The loop run from the state that \<open>k\<close> iterations lead to is the loop run from the
  start; and what \<open>k\<close> iterations have done: \<^verbatim>\<open>bytes_written\<close> has grown by the number of bytes
  consumed, and these bytes, a prefix of the input, are the chunks handed to the record
  writer.\<close>

lemma send_iterations_loop:
  "send_iterations E mps k (buf, bw, cbc, c, w) = Some (buf', bw', cbc', c', w') \<Longrightarrow>
     send_loop E mps buf bw cbc pm c w = send_loop E mps buf' bw' cbc' pm c' w'"
proof (induction k arbitrary: buf bw cbc c w)
  case 0
  then show ?case by simp
next
  case (Suc k)
  from Suc.prems obtain buf1 bw1 cbc1 c1 w1 where
    ne: "length buf \<noteq> 0"
    and sc: "send_chunk E mps buf bw cbc c w = Some (Continue (buf1, bw1, cbc1), c1, w1)"
    and it: "send_iterations E mps k (buf1, bw1, cbc1, c1, w1) = Some (buf', bw', cbc', c', w')"
    by (auto split: if_splits option.splits flow.splits prod.splits)
  from ne sc have "send_loop E mps buf bw cbc pm c w = send_loop E mps buf1 bw1 cbc1 pm c1 w1"
    by (subst send_loop.simps) simp
  with Suc.IH [OF it] show ?case by simp
qed

lemma send_iterations_count:
  "send_iterations E mps k (buf, bw, cbc, c, w) = Some (buf', bw', cbc', c', w') \<Longrightarrow>
     length buf' \<le> length buf \<and> bw' = bw + (length buf - length buf')
     \<and> buf' = drop (length buf - length buf') buf
     \<and> (\<exists>evs. trace w' = trace w @ evs
           \<and> concat (app_chunks evs) = take (length buf - length buf') buf)"
proof (induction k arbitrary: buf bw cbc c w)
  case 0
  then have "trace w' = trace w @ [] \<and> concat (app_chunks []) = take (length buf - length buf') buf"
    by simp
  with 0 show ?case by (intro conjI exI [of _ "[]"]) simp_all
next
  case (Suc k)
  from Suc.prems obtain buf1 bw1 cbc1 c1 w1 where
    ne: "length buf \<noteq> 0"
    and sc: "send_chunk E mps buf bw cbc c w = Some (Continue (buf1, bw1, cbc1), c1, w1)"
    and it: "send_iterations E mps k (buf1, bw1, cbc1, c1, w1) = Some (buf', bw', cbc', c', w')"
    by (auto split: if_splits option.splits flow.splits prod.splits)
  obtain n cbcx where cs: "chunk_size E c (length buf) mps cbc = (n, cbcx)"
    by (cases "chunk_size E c (length buf) mps cbc")
  from chunk_size_le [of E c "length buf" mps cbc] cs have nle: "n \<le> length buf" by simp
  from send_chunk_effect [OF sc cs] obtain evs0 where
    e0: "trace w1 = trace w @ evs0" "app_chunks evs0 = [take n buf]"
      "buf1 = drop n buf" "bw1 = bw + n"
    by auto
  from Suc.IH [OF it] obtain evs1 where
    ih: "length buf' \<le> length buf1" "bw' = bw1 + (length buf1 - length buf')"
      "buf' = drop (length buf1 - length buf') buf1"
      "trace w' = trace w1 @ evs1"
      "concat (app_chunks evs1) = take (length buf1 - length buf') buf1"
    by blast
  let ?d = "length buf1 - length buf'"
  from e0(3) nle have l1: "length buf1 = length buf - n" by simp
  with ih(1) nle have tot: "length buf - length buf' = n + ?d" by simp
  have a: "length buf' \<le> length buf" using ih(1) l1 by simp
  have b: "bw' = bw + (length buf - length buf')" using ih(2) e0(4) tot by simp
  have c: "buf' = drop (length buf - length buf') buf"
    using ih(3) e0(3) tot by (simp add: add.commute)
  have "take (n + ?d) buf = take n buf @ take ?d (drop n buf)"
    by (simp add: take_add)
  with ih(5) e0(2,3) tot
  have d: "concat (app_chunks (evs0 @ evs1)) = take (length buf - length buf') buf"
    by (simp add: app_chunks_append)
  from e0(1) ih(4) have "trace w' = trace w @ (evs0 @ evs1)" by simp
  with a b c d show ?case by blast
qed


lemma send_write_pending_script:
  "send_write_pending c w = Some (Inl e, c', w') \<Longrightarrow>
     \<exists>acc. script w = map Accept acc @ Refuse e # script w'"
proof (induction sc \<equiv> "script w" arbitrary: c w)
  case Nil
  from Nil.prems Nil.hyps[symmetric] show ?case
    by (subst (asm) send_write_pending.simps)
       (auto simp: s2n_stuffer_send_to_fd_def split: if_splits)
next
  case (Cons ev rest)
  show ?case
  proof (cases ev)
    case (Refuse e1)
    with Cons.prems Cons.hyps(2)[symmetric] have "script w = map Accept [] @ Refuse e # script w'"
      by (subst (asm) send_write_pending.simps)
         (auto simp: s2n_stuffer_send_to_fd_def split: if_splits)
    then show ?thesis by blast
  next
    case (Accept n)
    with Cons.prems Cons.hyps(2)[symmetric] obtain c1 w1 where
      st: "send_write_pending c1 w1 = Some (Inl e, c', w')" and sw: "script w1 = rest"
      by (subst (asm) send_write_pending.simps)
         (auto simp: s2n_stuffer_send_to_fd_def split: if_splits)
    from Cons.hyps(1) [OF sw [symmetric] st] obtain acc where
      "script w1 = map Accept acc @ Refuse e # script w'" by blast
    with sw Cons.hyps(2)[symmetric] Accept
    have "script w = map Accept (n # acc) @ Refuse e # script w'" by simp
    then show ?thesis by blast
  qed
qed

text \<open>
  C6. \<^verbatim>\<open>s2n_send\<close> on a connection that is not closed has flushed, adjusted the record size
  and got the maximum payload size; its loop has completed \<open>k\<close> iterations (any number, 0
  included) and has written the record of the next chunk, of \<open>n\<close> bytes. If a write of the
  drain loop then fails with \<^verbatim>\<open>errno\<close> \<open>e\<close>: the call returns, with \<^verbatim>\<open>*more\<close> 1 and the state that
  the failed write left. For \<^verbatim>\<open>EWOULDBLOCK\<close> the return value is a success, the number of
  input bytes consumed by the \<open>k\<close> iterations plus \<open>n\<close>; this number is the number of bytes
  that the call has handed to the record writer, which are the first bytes of the input.
  For any other \<open>e\<close> the return value is \<open>-1\<close>. The return is immediate: of the transport's
  answers, the call has consumed the refusal and nothing after it.
\<close>

theorem send_would_block_partial_result:
  assumes nc: "\<not> closed c"
    and fl: "s2n_flush E c w more0 = Some (Inr (), pm, c1, w1)"
    and ad: "adjust_record_size_if_needed E c1 w1 = (Inr (), c2)"
    and mp: "s2n_record_max_write_payload_size E c2 = Inr mps"
    and it: "send_iterations E mps k (buf, 0, False, c2, w1) = Some (rest, bw, cbc, c3, w3)"
    and ne: "rest \<noteq> []"
    and cs: "chunk_size E c3 (length rest) mps cbc = (n, cbc1)"
    and rw: "s2n_record_write E (c3\<lparr>out := (out c3)\<lparr>written := [], read_cursor := 0\<rparr>\<rparr>) w3
               TLS_APPLICATION_DATA (take n rest) = (Inr (), c4, w4)"
    and dr: "send_write_pending
               (c4\<lparr>dyn_record_sz_bytes_out := dyn_record_sz_bytes_out c4 + of_nat n\<rparr>) w4
               = Some (Inl e, c5, w5)"
  shows "s2n_send E c w buf more0 =
           Some (if e = EWOULDBLOCK then Inr (length buf - length rest + n) else Inl S2N_ERR_OTHER,
                 1, c5, w5)
       \<and> length buf - length rest + n \<le> length buf
       \<and> (\<exists>evs. trace w5 = trace w @ evs
             \<and> concat (app_chunks evs) = take (length buf - length rest + n) buf)
       \<and> (\<exists>acc. script w3 = map Accept acc @ Refuse e # script w5)"
proof -
  let ?d = "length buf - length rest"
  from send_iterations_count [OF it] obtain evs1 where
    cnt: "length rest \<le> length buf" "bw = ?d" "rest = drop ?d buf"
      "trace w3 = trace w1 @ evs1" "concat (app_chunks evs1) = take ?d buf"
    by auto
  from chunk_size_le [of E c3 "length rest" mps cbc] cs have nle: "n \<le> length rest" by simp
  from nc fl ad mp have "s2n_send E c w buf more0 = send_loop E mps buf 0 False 1 c2 w1"
    by (simp add: s2n_send_def)
  also from send_iterations_loop [OF it] have "\<dots> = send_loop E mps rest bw cbc 1 c3 w3" .
  also from ne cs rw dr have "\<dots> =
      Some (if e = EWOULDBLOCK then Inr (bw + n) else Inl S2N_ERR_OTHER, 1, c5, w5)"
    by (subst send_loop.simps) (simp add: send_chunk_def s2n_stuffer_rewrite_def Let_def)
  finally have ret: "s2n_send E c w buf more0 =
      Some (if e = EWOULDBLOCK then Inr (?d + n) else Inl S2N_ERR_OTHER, 1, c5, w5)"
    using cnt(2) by simp
  from fl have "flush_WRITE E 1 c w = Some (Inr (), pm, c1, w1)" by (simp add: s2n_flush_def)
  from flush_WRITE_app_chunks [OF this] obtain evs0 where
    e0: "trace w1 = trace w @ evs0" "app_chunks evs0 = []" by auto
  from rw have t4: "trace w4 = trace w3 @ [Rec TLS_APPLICATION_DATA (take n rest)]"
    and s4: "script w4 = script w3"
    by (auto simp: s2n_record_write_def split: sum.splits)
  from send_write_pending_effect [OF dr] obtain txs where
    t5: "trace w5 = trace w4 @ map Tx txs" by auto
  have "take (?d + n) buf = take ?d buf @ take n (drop ?d buf)"
    by (simp add: take_add)
  with cnt(3,5) e0(2)
  have "concat (app_chunks (evs0 @ evs1 @ Rec TLS_APPLICATION_DATA (take n rest) # map Tx txs))
          = take (?d + n) buf"
    by (simp add: app_chunks_append app_chunks_Tx)
  moreover from e0(1) cnt(4) t4 t5
  have "trace w5 = trace w @ (evs0 @ evs1 @ Rec TLS_APPLICATION_DATA (take n rest) # map Tx txs)"
    by simp
  ultimately have tr: "\<exists>evs. trace w5 = trace w @ evs
             \<and> concat (app_chunks evs) = take (?d + n) buf"
    by blast
  from send_write_pending_script [OF dr] s4
  have sc: "\<exists>acc. script w3 = map Accept acc @ Refuse e # script w5" by simp
  from cnt(1,3) nle have le: "?d + n \<le> length buf" by simp
  from ret le tr sc show ?thesis by blast
qed

text \<open>On the test bed with two-byte payloads and the input \<open>[1, 2, 3, 4, 5]\<close>: a transport
  that takes two records and then would block gives the partial count 5 (two chunks of two
  bytes and the chunk \<open>[5]\<close>, whose record stays in \<^verbatim>\<open>conn->out\<close>), and leaves the rest of the
  transport's answers alone; one that takes a record and a byte and then fails otherwise
  gives \<open>-1\<close>.\<close>

theorem send_would_block_partial_result_witness:
  "s2n_send ex_env_small ex_conn
       (ex_world\<lparr>script := [Accept 100, Accept 100, Refuse EWOULDBLOCK, Accept 100]\<rparr>) [1, 2, 3, 4, 5] 0
     = Some (Inr 5, 1,
             ex_conn\<lparr>out := ex_stuffer\<lparr>written := [23, 5]\<rparr>, wire_bytes_out := 6,
                       dyn_record_sz_bytes_out := 5\<rparr>,
             ex_world\<lparr>script := [Accept 100],
                       trace := [Rec TLS_APPLICATION_DATA [1, 2], Tx [23, 1, 2],
                                 Rec TLS_APPLICATION_DATA [3, 4], Tx [23, 3, 4],
                                 Rec TLS_APPLICATION_DATA [5]]\<rparr>)
   \<and> s2n_send ex_env_small ex_conn
       (ex_world\<lparr>script := [Accept 100, Accept 1, Refuse EOTHER]\<rparr>) [1, 2, 3, 4, 5] 0
     = Some (Inl S2N_ERR_OTHER, 1,
             ex_conn\<lparr>out := ex_stuffer\<lparr>written := [23, 3, 4], read_cursor := 1\<rparr>, wire_bytes_out := 4,
                       dyn_record_sz_bytes_out := 4\<rparr>,
             ex_world\<lparr>trace := [Rec TLS_APPLICATION_DATA [1, 2], Tx [23, 1, 2],
                                 Rec TLS_APPLICATION_DATA [3, 4], Tx [23]]\<rparr>)"
proof -
  let ?wa = "ex_world\<lparr>script := [Accept 100, Accept 100, Refuse EWOULDBLOCK, Accept 100]\<rparr>"
  let ?wb = "ex_world\<lparr>script := [Accept 100, Accept 1, Refuse EOTHER]\<rparr>"
  let ?ca3 = "ex_conn\<lparr>out := ex_stuffer\<lparr>written := [23, 3, 4], read_cursor := 3\<rparr>,
                      wire_bytes_out := 6, dyn_record_sz_bytes_out := 4\<rparr>"
  let ?wa3 = "ex_world\<lparr>script := [Refuse EWOULDBLOCK, Accept 100],
                        trace := [Rec TLS_APPLICATION_DATA [1, 2], Tx [23, 1, 2],
                                  Rec TLS_APPLICATION_DATA [3, 4], Tx [23, 3, 4]]\<rparr>"
  let ?cb3 = "ex_conn\<lparr>out := ex_stuffer\<lparr>written := [23, 1, 2], read_cursor := 3\<rparr>,
                      wire_bytes_out := 3, dyn_record_sz_bytes_out := 2\<rparr>"
  let ?wb3 = "ex_world\<lparr>script := [Accept 1, Refuse EOTHER],
                        trace := [Rec TLS_APPLICATION_DATA [1, 2], Tx [23, 1, 2]]\<rparr>"
  have nc: "\<not> closed ex_conn" by (simp add: ex_defs)
  have fa: "s2n_flush ex_env_small ex_conn ?wa 0 = Some (Inr (), 0, ex_conn, ?wa)"
    and fb: "s2n_flush ex_env_small ex_conn ?wb 0 = Some (Inr (), 0, ex_conn, ?wb)"
    by (simp_all add: eval_defs ex_defs ex_env_small_def)
  have ad: "adjust_record_size_if_needed ex_env_small ex_conn wx = (Inr (), ex_conn)" for wx
    by (simp add: eval_defs ex_defs ex_env_small_def)
  have mp: "s2n_record_max_write_payload_size ex_env_small ex_conn = Inr 2"
    by (simp add: ex_defs ex_env_small_def)
  have ia: "send_iterations ex_env_small 2 (Suc (Suc 0)) ([1, 2, 3, 4, 5], 0, False, ex_conn, ?wa)
              = Some ([5], 4, False, ?ca3, ?wa3)"
    by (simp add: eval_defs ex_defs ex_env_small_def)
  have ib: "send_iterations ex_env_small 2 (Suc 0) ([1, 2, 3, 4, 5], 0, False, ex_conn, ?wb)
              = Some ([3, 4, 5], 2, False, ?cb3, ?wb3)"
    by (simp add: eval_defs ex_defs ex_env_small_def)
  have na: "[5 :: byte] \<noteq> []" and nb: "[3, 4, 5 :: byte] \<noteq> []" by simp_all
  have ca: "chunk_size ex_env_small ?ca3 (length [5 :: byte]) 2 False = (1, False)"
    and cb: "chunk_size ex_env_small ?cb3 (length [3, 4, 5 :: byte]) 2 False = (2, False)"
    by (simp_all add: chunk_size_def ex_defs ex_env_small_def)
  have ra: "s2n_record_write ex_env_small (?ca3\<lparr>out := (out ?ca3)\<lparr>written := [], read_cursor := 0\<rparr>\<rparr>) ?wa3
              TLS_APPLICATION_DATA (take 1 [5])
            = (Inr (), ?ca3\<lparr>out := ex_stuffer\<lparr>written := [23, 5]\<rparr>\<rparr>,
               ?wa3\<lparr>trace := trace ?wa3 @ [Rec TLS_APPLICATION_DATA [5]]\<rparr>)"
    and rb: "s2n_record_write ex_env_small (?cb3\<lparr>out := (out ?cb3)\<lparr>written := [], read_cursor := 0\<rparr>\<rparr>) ?wb3
              TLS_APPLICATION_DATA (take 2 [3, 4, 5])
            = (Inr (), ?cb3\<lparr>out := ex_stuffer\<lparr>written := [23, 3, 4]\<rparr>\<rparr>,
               ?wb3\<lparr>trace := trace ?wb3 @ [Rec TLS_APPLICATION_DATA [3, 4]]\<rparr>)"
    by (simp_all add: s2n_record_write_def ex_defs ex_env_small_def)
  have da: "send_write_pending
              (?ca3\<lparr>out := ex_stuffer\<lparr>written := [23, 5]\<rparr>\<rparr>
                 \<lparr>dyn_record_sz_bytes_out :=
                    dyn_record_sz_bytes_out (?ca3\<lparr>out := ex_stuffer\<lparr>written := [23, 5]\<rparr>\<rparr>) + of_nat 1\<rparr>)
              (?wa3\<lparr>trace := trace ?wa3 @ [Rec TLS_APPLICATION_DATA [5]]\<rparr>)
            = Some (Inl EWOULDBLOCK,
                    ex_conn\<lparr>out := ex_stuffer\<lparr>written := [23, 5]\<rparr>, wire_bytes_out := 6,
                              dyn_record_sz_bytes_out := 5\<rparr>,
                    ex_world\<lparr>script := [Accept 100],
                       trace := [Rec TLS_APPLICATION_DATA [1, 2], Tx [23, 1, 2],
                                 Rec TLS_APPLICATION_DATA [3, 4], Tx [23, 3, 4],
                                 Rec TLS_APPLICATION_DATA [5]]\<rparr>)"
    by (simp add: send_write_pending.simps s2n_stuffer_send_to_fd_def s2n_stuffer_data_available_def ex_defs)
  have db: "send_write_pending
              (?cb3\<lparr>out := ex_stuffer\<lparr>written := [23, 3, 4]\<rparr>\<rparr>
                 \<lparr>dyn_record_sz_bytes_out :=
                    dyn_record_sz_bytes_out (?cb3\<lparr>out := ex_stuffer\<lparr>written := [23, 3, 4]\<rparr>\<rparr>) + of_nat 2\<rparr>)
              (?wb3\<lparr>trace := trace ?wb3 @ [Rec TLS_APPLICATION_DATA [3, 4]]\<rparr>)
            = Some (Inl EOTHER,
                    ex_conn\<lparr>out := ex_stuffer\<lparr>written := [23, 3, 4], read_cursor := 1\<rparr>, wire_bytes_out := 4,
                       dyn_record_sz_bytes_out := 4\<rparr>,
                    ex_world\<lparr>trace := [Rec TLS_APPLICATION_DATA [1, 2], Tx [23, 1, 2],
                                 Rec TLS_APPLICATION_DATA [3, 4], Tx [23]]\<rparr>)"
    by (simp add: send_write_pending.simps s2n_stuffer_send_to_fd_def s2n_stuffer_data_available_def ex_defs)
  from send_would_block_partial_result [OF nc fa ad mp ia na ca ra da]
    send_would_block_partial_result [OF nc fb ad mp ib nb cb rb db]
  show ?thesis by simp
qed

lemma adjust_legacy:
  "legacy_cbc E (snd (adjust_record_size_if_needed E c w)) = legacy_cbc E c"
  by (auto simp: adjust_record_size_if_needed_def adjust_decide_def Let_def s2n_timer_reset_def
        legacy_cbc_def split: sum.splits prod.splits if_splits)

text \<open>The chunks of one call of \<^verbatim>\<open>s2n_send\<close> that gets as far as its loop, the input being
  shorter than \<open>2\<^sup>3\<^sup>2\<close> bytes: in the order in which they are handed to the record writer, they
  have the sizes the specification prescribes. Each is the minimum of the remaining input
  and the maximum payload size, except that below TLS 1.1 with a CBC cipher the first chunk
  is exactly one byte when its natural size exceeds one byte. Only the first chunk can be
  forced, so the split happens at most once per call. This holds however the call ends
  (input exhausted, would-block, error).\<close>

lemma send_chunks_below_4G:
  assumes send: "s2n_send E c w buf more0 = Some (r, m, c', w')"
    and nc: "\<not> closed c"
    and fl: "s2n_flush E c w more0 = Some (Inr (), pm, c1, w1)"
    and ad: "adjust_record_size_if_needed E c1 w1 = (Inr (), c2)"
    and mp: "s2n_record_max_write_payload_size E c2 = Inr mps"
    and small: "length buf < 2 ^ 32"
  shows "\<exists>evs. trace w' = trace w @ evs
           \<and> spec_chunk_sizes (legacy_cbc E c1) (length buf) mps (map length (app_chunks evs))"
proof -
  from fl have "flush_WRITE E 1 c w = Some (Inr (), pm, c1, w1)" by (simp add: s2n_flush_def)
  from flush_WRITE_app_chunks [OF this] obtain evs0 where
    e0: "trace w1 = trace w @ evs0" "app_chunks evs0 = []" by auto
  from send nc fl ad mp have "send_loop E mps buf 0 False 1 c2 w1 = Some (r, m, c', w')"
    by (simp add: s2n_send_def)
  from send_loop_chunks [OF this] small adjust_legacy [of E c1 w1] ad obtain evs1 where
    "trace w' = trace w1 @ evs1"
    "spec_chunk_sizes (legacy_cbc E c1) (length buf) mps (map length (app_chunks evs1))"
    by auto
  with e0 show ?thesis
    by (intro exI [of _ "evs0 @ evs1"]) (simp add: app_chunks_append)
qed

text \<open>On the test bed with two-byte payloads, five bytes of input: at TLS 1.0 with CBC the
  chunks are \<open>[1]\<close>, \<open>[2, 3]\<close>, \<open>[4, 5]\<close>; at TLS 1.2 they are \<open>[1, 2]\<close>, \<open>[3, 4]\<close>, \<open>[5]\<close>.\<close>

lemma send_chunks_below_4G_example:
  "map_option (\<lambda>(r, m, c, w). (r, m, app_chunks (trace w)))
       (s2n_send ex_env_small ex_conn_legacy (ex_world\<lparr>script := [Accept 100, Accept 100, Accept 100]\<rparr>)
          [1, 2, 3, 4, 5] 0)
     = Some (Inr 5, 0, [[1], [2, 3], [4, 5]])
   \<and> map_option (\<lambda>(r, m, c, w). (r, m, app_chunks (trace w)))
       (s2n_send ex_env_small ex_conn (ex_world\<lparr>script := [Accept 100, Accept 100, Accept 100]\<rparr>)
          [1, 2, 3, 4, 5] 0)
     = Some (Inr 5, 0, [[1, 2], [3, 4], [5]])
   \<and> legacy_cbc ex_env_small ex_conn_legacy \<and> \<not> legacy_cbc ex_env_small ex_conn"
  by (simp add: eval_defs ex_defs ex_conn_legacy_def ex_env_small_def legacy_cbc_def)


subsection \<open>Alerts and the close, over sequences of calls\<close>

lemma alert_then_closed_append:
  assumes "alert_then_closed E a evs"
  shows "alert_then_closed E a (evs @ more_evs)"
proof -
  from assms obtain txs0 cx s rcd txs post where
    "evs = map Tx txs0 @ Rec TLS_ALERT a # map Tx txs @ MarkClosed # post"
    "record_write E cx TLS_ALERT a = Inr (s, rcd)" "concat txs = rcd"
    unfolding alert_then_closed_def by blast
  then have "evs @ more_evs = map Tx txs0 @ Rec TLS_ALERT a # map Tx txs @ MarkClosed # (post @ more_evs)
      \<and> record_write E cx TLS_ALERT a = Inr (s, rcd) \<and> concat txs = rcd"
    by simp
  then show ?thesis unfolding alert_then_closed_def by blast
qed

lemma alert_then_closed_prefix:
  assumes "alert_then_closed E a evs"
  shows "alert_then_closed E a (map Tx pre @ evs)"
proof -
  from assms obtain txs0 cx s rcd txs post where
    "evs = map Tx txs0 @ Rec TLS_ALERT a # map Tx txs @ MarkClosed # post"
    "record_write E cx TLS_ALERT a = Inr (s, rcd)" "concat txs = rcd"
    unfolding alert_then_closed_def by blast
  then have "map Tx pre @ evs = map Tx (pre @ txs0) @ Rec TLS_ALERT a # map Tx txs @ MarkClosed # post
      \<and> record_write E cx TLS_ALERT a = Inr (s, rcd) \<and> concat txs = rcd"
    by simp
  then show ?thesis unfolding alert_then_closed_def by blast
qed

lemma alert_in_flight_prefix:
  assumes "alert_in_flight E a c evs"
  shows "alert_in_flight E a c (map Tx pre @ evs)"
proof -
  from assms obtain txs0 cx s rcd txs where
    "closing c" "evs = map Tx txs0 @ Rec TLS_ALERT a # map Tx txs"
    "record_write E cx TLS_ALERT a = Inr (s, rcd)" "concat txs @ unsent (out c) = rcd"
    unfolding alert_in_flight_def by blast
  then have "closing c \<and> map Tx pre @ evs = map Tx (pre @ txs0) @ Rec TLS_ALERT a # map Tx txs
      \<and> record_write E cx TLS_ALERT a = Inr (s, rcd) \<and> concat txs @ unsent (out c) = rcd"
    by simp
  then show ?thesis unfolding alert_in_flight_def by blast
qed

lemma alert_marks:
  "alert_waiting c0 c evs \<Longrightarrow> MarkClosed \<notin> set evs"
  "alert_in_flight E a c evs \<Longrightarrow> MarkClosed \<notin> set evs"
  by (auto simp: alert_waiting_def alert_in_flight_def)

lemma first_alert_cong:
  "reader_alert_out c = reader_alert_out c0 \<Longrightarrow> writer_alert_out c = writer_alert_out c0
     \<Longrightarrow> first_alert c = first_alert c0"
  by (simp add: first_alert_def)

lemma flush_WRITE_alert_order:
  assumes fw: "flush_WRITE E pmore c w = Some (r, m, c', w')"
    and t0: "trace w = t0 @ evs"
    and ao: "alert_order E c0 c evs"
    and pend: "s2n_stuffer_data_available (reader_alert_out c0) = 2
             \<or> s2n_stuffer_data_available (writer_alert_out c0) = 2"
  shows "\<exists>evs'. trace w' = t0 @ evs' \<and> alert_order E c0 c' evs'
           \<and> (r = Inr () \<longrightarrow> alert_then_closed E (first_alert c0) evs')"
proof -
  let ?a = "first_alert c0"
  from ao consider (waiting) "alert_waiting c0 c evs" | (flight) "alert_in_flight E ?a c evs"
    | (closed) "alert_then_closed E ?a evs"
    unfolding alert_order_def by blast
  then show ?thesis
  proof cases
    case waiting
    then obtain pre where w: "\<not> closing c" "reader_alert_out c = reader_alert_out c0"
      "writer_alert_out c = writer_alert_out c0" "evs = map Tx pre"
      unfolding alert_waiting_def by blast
    from w(2,3) pend have pc: "s2n_stuffer_data_available (reader_alert_out c) = 2
             \<or> s2n_stuffer_data_available (writer_alert_out c) = 2" by simp
    from first_alert_cong [OF w(2,3)] have fa: "first_alert c = ?a" .
    from flush_WRITE_pending [OF fw w(1) pc] fa obtain evs1 where
      tr: "trace w' = trace w @ evs1"
      and alt: "(\<exists>e. r = Inl e) \<and> alert_waiting c c' evs1
              \<or> (\<exists>e. r = Inl e) \<and> alert_in_flight E ?a c' evs1
              \<or> alert_then_closed E ?a evs1"
      by auto
    from tr t0 w(4) have tr': "trace w' = t0 @ (map Tx pre @ evs1)" by simp
    from alt consider (a) "(\<exists>e. r = Inl e)" "alert_waiting c c' evs1"
      | (b) "(\<exists>e. r = Inl e)" "alert_in_flight E ?a c' evs1"
      | (c) "alert_then_closed E ?a evs1" by blast
    then show ?thesis
    proof cases
      case a
      from a(2) obtain txs where "\<not> closing c'" "reader_alert_out c' = reader_alert_out c"
        "writer_alert_out c' = writer_alert_out c" "evs1 = map Tx txs"
        unfolding alert_waiting_def by blast
      with w(2,3) have "\<not> closing c' \<and> reader_alert_out c' = reader_alert_out c0
        \<and> writer_alert_out c' = writer_alert_out c0 \<and> map Tx pre @ evs1 = map Tx (pre @ txs)"
        by simp
      then have "alert_waiting c0 c' (map Tx pre @ evs1)"
        unfolding alert_waiting_def by blast
      with tr' a(1) show ?thesis unfolding alert_order_def by blast
    next
      case b
      from alert_in_flight_prefix [OF b(2)] tr' b(1) show ?thesis
        unfolding alert_order_def by blast
    next
      case c
      from alert_then_closed_prefix [OF c] tr' show ?thesis
        unfolding alert_order_def by blast
    qed
  next
    case flight
    then obtain txs0 cx s rcd txs1 where
      f: "closing c" "evs = map Tx txs0 @ Rec TLS_ALERT ?a # map Tx txs1"
      "record_write E cx TLS_ALERT ?a = Inr (s, rcd)" "concat txs1 @ unsent (out c) = rcd"
      unfolding alert_in_flight_def by blast
    from flush_WRITE_closing [OF fw f(1)] obtain txs where
      alt: "((\<exists>e. r = Inl e) \<and> trace w' = trace w @ map Tx txs
                 \<and> closing c' \<and> concat txs @ unsent (out c') = unsent (out c))
            \<or> (concat txs = unsent (out c) \<and> (\<exists>post. trace w' = trace w @ map Tx txs @ MarkClosed # post))"
      by blast
    then show ?thesis
    proof
      assume a: "(\<exists>e. r = Inl e) \<and> trace w' = trace w @ map Tx txs
                 \<and> closing c' \<and> concat txs @ unsent (out c') = unsent (out c)"
      define evs' where "evs' = map Tx txs0 @ Rec TLS_ALERT ?a # map Tx (txs1 @ txs)"
      from a t0 f(2) have "trace w' = t0 @ evs'" by (simp add: evs'_def)
      moreover from a f(4) have "concat (txs1 @ txs) @ unsent (out c') = rcd" by simp
      with a f(3) have "alert_in_flight E ?a c' evs'"
        unfolding alert_in_flight_def evs'_def by blast
      ultimately show ?thesis using a unfolding alert_order_def by blast
    next
      assume a: "concat txs = unsent (out c) \<and> (\<exists>post. trace w' = trace w @ map Tx txs @ MarkClosed # post)"
      then obtain post where tr: "trace w' = trace w @ map Tx txs @ MarkClosed # post" by blast
      define evs' where
        "evs' = map Tx txs0 @ Rec TLS_ALERT ?a # map Tx (txs1 @ txs) @ MarkClosed # post"
      from tr t0 f(2) have "trace w' = t0 @ evs'" by (simp add: evs'_def)
      moreover from a f(4) have "concat (txs1 @ txs) = rcd" by simp
      with f(3) have "alert_then_closed E ?a evs'"
        unfolding alert_then_closed_def evs'_def by blast
      ultimately show ?thesis unfolding alert_order_def by blast
    qed
  next
    case closed
    from flush_WRITE_trace [OF fw] obtain more_evs where "trace w' = trace w @ more_evs" by auto
    with t0 have "trace w' = t0 @ (evs @ more_evs)" by simp
    with alert_then_closed_append [OF closed, of more_evs] show ?thesis
      unfolding alert_order_def by blast
  qed
qed

lemma adjust_alert_frame:
  "adjust_record_size_if_needed E c w = (r, c') \<Longrightarrow>
     closing c' = closing c \<and> reader_alert_out c' = reader_alert_out c
     \<and> writer_alert_out c' = writer_alert_out c \<and> unsent (out c') = unsent (out c)"
  by (auto simp: adjust_record_size_if_needed_def adjust_decide_def Let_def s2n_timer_reset_def
        s2n_stuffer_resize_def unsent_def split: sum.splits prod.splits if_splits option.splits)

lemma adjust_alert_order:
  assumes "adjust_record_size_if_needed E c w = (r, c')" and "alert_order E c0 c evs"
  shows "alert_order E c0 c' evs"
  using adjust_alert_frame [OF assms(1)] assms(2)
  by (simp add: alert_order_def alert_waiting_def alert_in_flight_def)

lemma send_loop_trace:
  assumes "send_loop E mps buf bw cbc pm c w = Some y"
  shows "\<exists>evs. trace (snd (snd (snd y))) = trace w @ evs"
proof (rule send_loop.raw_induct
    [where P = "\<lambda>E mps buf bw cbc pm c w y. \<exists>evs. trace (snd (snd (snd y))) = trace w @ evs",
     OF _ assms], goal_cases)
  case (1 f E mps buf bw cbc pm c w y)
  obtain n cbc1 where cs: "chunk_size E c (length buf) mps cbc = (n, cbc1)"
    by (cases "chunk_size E c (length buf) mps cbc")
  show ?case
  proof (cases "length buf \<noteq> 0")
    case False
    with "1"(2) show ?thesis by auto
  next
    case True
    with "1"(2) obtain fl c1 w1 where
      sc: "send_chunk E mps buf bw cbc c w = Some (fl, c1, w1)"
      by (auto split: option.splits)
    from send_chunk_effect [OF sc cs] obtain evs0 where tr0: "trace w1 = trace w @ evs0" by auto
    show ?thesis
    proof (cases fl)
      case (Return r)
      with "1"(2) True sc tr0 show ?thesis by auto
    next
      case (Continue k)
      obtain buf1 bw1 cbc2 where k: "k = (buf1, bw1, cbc2)" by (cases k)
      with "1"(2) True sc Continue have "f E mps buf1 bw1 cbc2 pm c1 w1 = Some y" by simp
      from "1"(1) [OF this] tr0 show ?thesis by auto
    qed
  qed
qed

lemma s2n_send_alert_order:
  assumes send: "s2n_send E c w buf more0 = Some (r, m, c', w')"
    and t0: "trace w = t0 @ evs"
    and ao: "alert_order E c0 c evs"
    and pend: "s2n_stuffer_data_available (reader_alert_out c0) = 2
             \<or> s2n_stuffer_data_available (writer_alert_out c0) = 2"
  shows "\<exists>evs'. trace w' = t0 @ evs' \<and> alert_order E c0 c' evs'"
proof (cases "closed c")
  case True
  with send t0 ao show ?thesis by (auto simp: s2n_send_def)
next
  case False
  with send obtain rf pm c1 w1 where fl: "flush_WRITE E 1 c w = Some (rf, pm, c1, w1)"
    by (auto simp: s2n_send_def s2n_flush_def split: option.splits)
  from flush_WRITE_alert_order [OF fl t0 ao pend] obtain evs1 where
    f1: "trace w1 = t0 @ evs1" "alert_order E c0 c1 evs1"
      "rf = Inr () \<longrightarrow> alert_then_closed E (first_alert c0) evs1"
    by blast
  show ?thesis
  proof (cases rf)
    case (Inl e)
    with send False fl have "c' = c1 \<and> w' = w1" by (simp add: s2n_send_def s2n_flush_def)
    with f1 show ?thesis by blast
  next
    case (Inr u)
    with f1(3) have cl: "alert_then_closed E (first_alert c0) evs1" by simp
    have "\<exists>more_evs. trace w' = trace w1 @ more_evs"
    proof (cases "adjust_record_size_if_needed E c1 w1")
      case (Pair ra c2)
      show ?thesis
      proof (cases ra)
        case (Inl e)
        with send False fl Inr Pair have "w' = w1" by (simp add: s2n_send_def s2n_flush_def)
        then show ?thesis by simp
      next
        case ok: (Inr u2)
        show ?thesis
        proof (cases "s2n_record_max_write_payload_size E c2")
          case (Inl e)
          with send False fl Inr Pair ok have "w' = w1" by (simp add: s2n_send_def s2n_flush_def)
          then show ?thesis by simp
        next
          case mp: (Inr mps)
          with send False fl Inr Pair ok
          have "send_loop E mps buf 0 False 1 c2 w1 = Some (r, m, c', w')"
            by (simp add: s2n_send_def s2n_flush_def)
          from send_loop_trace [OF this] show ?thesis by simp
        qed
      qed
    qed
    then obtain more_evs where "trace w' = trace w1 @ more_evs" by blast
    with f1(1) have "trace w' = t0 @ (evs1 @ more_evs)" by simp
    with alert_then_closed_append [OF cl, of more_evs] show ?thesis
      unfolding alert_order_def by blast
  qed
qed

lemma run_alert_order:
  assumes pend: "s2n_stuffer_data_available (reader_alert_out c0) = 2
             \<or> s2n_stuffer_data_available (writer_alert_out c0) = 2"
  shows "run E ops c w = Some (c', w') \<Longrightarrow> trace w = t0 @ evs \<Longrightarrow> alert_order E c0 c evs
     \<Longrightarrow> \<exists>evs'. trace w' = t0 @ evs' \<and> alert_order E c0 c' evs'"
proof (induction ops arbitrary: c w evs)
  case Nil
  then show ?case by auto
next
  case (Cons a ops)
  show ?case
  proof (cases a)
    case (Send buf)
    with Cons.prems(1) obtain r m c1 w1 where
      s: "s2n_send E c w buf 0 = Some (r, m, c1, w1)" and rest: "run E ops c1 w1 = Some (c', w')"
      by (auto split: option.splits)
    from s2n_send_alert_order [OF s Cons.prems(2,3) pend] obtain evs1 where
      "trace w1 = t0 @ evs1" "alert_order E c0 c1 evs1" by blast
    from Cons.IH [OF rest this] show ?thesis .
  next
    case Adjust
    with Cons.prems(1) obtain r c1 where
      a: "adjust_record_size_if_needed E c w = (r, c1)" and rest: "run E ops c1 w = Some (c', w')"
      by (auto split: prod.splits)
    from Cons.IH [OF rest Cons.prems(2) adjust_alert_order [OF a Cons.prems(3)]] show ?thesis .
  next
    case Flush
    with Cons.prems(1) obtain r m c1 w1 where
      f: "flush_WRITE E 1 c w = Some (r, m, c1, w1)" and rest: "run E ops c1 w1 = Some (c', w')"
      by (auto simp: s2n_flush_def split: option.splits)
    from flush_WRITE_alert_order [OF f Cons.prems(2,3) pend] obtain evs1 where
      "trace w1 = t0 @ evs1" "alert_order E c0 c1 evs1" by blast
    from Cons.IH [OF rest this] show ?thesis .
  next
    case (Environment sc t)
    with Cons.prems(1) have rest: "run E ops c (w\<lparr>script := sc, now := t\<rparr>) = Some (c', w')"
      by simp
    from Cons.prems(2) have "trace (w\<lparr>script := sc, now := t\<rparr>) = t0 @ evs" by simp
    from Cons.IH [OF rest this Cons.prems(3)] show ?thesis .
  qed
qed

text \<open>
  C3, amended. (a) When \<^verbatim>\<open>s2n_flush\<close> returns 0, \<^verbatim>\<open>*more\<close> is 0, \<^verbatim>\<open>conn->out\<close> holds no unsent
  byte and neither alert stuffer holds a pending (two-byte) alert. (b) When \<^verbatim>\<open>s2n_flush\<close>
  is entered on a connection that is not yet closing, with an alert pending, then whatever
  it returns: if the connection was marked closed during the call, the record of the
  first alert (the reader-driven one if pending, else the writer-driven one) had been
  handed to the record writer and transmitted in full before the first such mark; and a
  return of 0 does mark it closed. (c) When \<^verbatim>\<open>s2n_flush\<close> is entered on a connection that is
  closing, as it is after a call that staged the alert and could not transmit all of its
  record: a mark made during the call comes after the transmission of every byte that was
  unsent in \<^verbatim>\<open>conn->out\<close>, and a call that makes no mark returns \<open>-1\<close>, leaves the connection
  closing and the bytes not yet transmitted in \<^verbatim>\<open>conn->out\<close>. (d) Hence over every sequence of
  calls of \<^verbatim>\<open>s2n_flush\<close>, \<^verbatim>\<open>s2n_send\<close> and the size adjustment, the transport and the clock
  changing in between, that starts on a connection not yet closing with an alert pending:
  if the connection is ever marked closed, the record of the first alert was handed to the
  record writer and transmitted in full before the first mark, however many calls that
  took. The claim as stated, for every pending alert, fails when both alerts are pending:
  the writer-driven one is then handled after the mark.
\<close>

theorem flush_postcondition_and_alert_order:
  "(s2n_flush E c w more0 = Some (r, m, c', w') \<longrightarrow>
      (r = Inr () \<longrightarrow>
         m = 0 \<and> s2n_stuffer_data_available (out c') = 0
         \<and> s2n_stuffer_data_available (reader_alert_out c') \<noteq> 2
         \<and> s2n_stuffer_data_available (writer_alert_out c') \<noteq> 2)
      \<and> (\<not> closing c
            \<and> (s2n_stuffer_data_available (reader_alert_out c) = 2
                 \<or> s2n_stuffer_data_available (writer_alert_out c) = 2) \<longrightarrow>
            (\<exists>evs. trace w' = trace w @ evs
               \<and> (r = Inr () \<longrightarrow> MarkClosed \<in> set evs)
               \<and> (MarkClosed \<in> set evs \<longrightarrow>
                    (\<exists>txs0 cx s record txs post.
                        evs = map Tx txs0 @ Rec TLS_ALERT (first_alert c) # map Tx txs @ MarkClosed # post
                        \<and> record_write E cx TLS_ALERT (first_alert c) = Inr (s, record)
                        \<and> concat txs = record))))
      \<and> (closing c \<longrightarrow>
            (\<exists>evs. trace w' = trace w @ evs
               \<and> (MarkClosed \<in> set evs \<longrightarrow>
                    (\<exists>txs post. evs = map Tx txs @ MarkClosed # post \<and> concat txs = unsent (out c)))
               \<and> (MarkClosed \<notin> set evs \<longrightarrow>
                    closing c' \<and> (\<exists>e. r = Inl e)
                    \<and> (\<exists>txs. evs = map Tx txs \<and> concat txs @ unsent (out c') = unsent (out c))))))
   \<and> (run E ops c w = Some (cz, wz) \<and> \<not> closing c
         \<and> (s2n_stuffer_data_available (reader_alert_out c) = 2
              \<or> s2n_stuffer_data_available (writer_alert_out c) = 2) \<longrightarrow>
         (\<exists>evs. trace wz = trace w @ evs
            \<and> (MarkClosed \<in> set evs \<longrightarrow>
                 (\<exists>txs0 cx s record txs post.
                     evs = map Tx txs0 @ Rec TLS_ALERT (first_alert c) # map Tx txs @ MarkClosed # post
                     \<and> record_write E cx TLS_ALERT (first_alert c) = Inr (s, record)
                     \<and> concat txs = record))))"
proof (rule conjI; rule impI)
  assume ret: "s2n_flush E c w more0 = Some (r, m, c', w')"
  then have fw: "flush_WRITE E 1 c w = Some (r, m, c', w')"
    by (simp add: s2n_flush_def)
  have p1: "r = Inr () \<longrightarrow>
         m = 0 \<and> s2n_stuffer_data_available (out c') = 0
         \<and> s2n_stuffer_data_available (reader_alert_out c') \<noteq> 2
         \<and> s2n_stuffer_data_available (writer_alert_out c') \<noteq> 2"
    using flush_WRITE_more [OF fw] flush_WRITE_done [OF fw] by simp
  have p2: "\<not> closing c
            \<and> (s2n_stuffer_data_available (reader_alert_out c) = 2
                 \<or> s2n_stuffer_data_available (writer_alert_out c) = 2) \<longrightarrow>
            (\<exists>evs. trace w' = trace w @ evs
               \<and> (r = Inr () \<longrightarrow> MarkClosed \<in> set evs)
               \<and> (MarkClosed \<in> set evs \<longrightarrow>
                    (\<exists>txs0 cx s record txs post.
                        evs = map Tx txs0 @ Rec TLS_ALERT (first_alert c) # map Tx txs @ MarkClosed # post
                        \<and> record_write E cx TLS_ALERT (first_alert c) = Inr (s, record)
                        \<and> concat txs = record)))"
  proof
    assume a: "\<not> closing c
            \<and> (s2n_stuffer_data_available (reader_alert_out c) = 2
                 \<or> s2n_stuffer_data_available (writer_alert_out c) = 2)"
    then have nc: "\<not> closing c" and pend: "s2n_stuffer_data_available (reader_alert_out c) = 2
                 \<or> s2n_stuffer_data_available (writer_alert_out c) = 2" by simp_all
    from flush_WRITE_pending [OF fw nc pend] obtain evs where
      tr: "trace w' = trace w @ evs"
      and alt: "(\<exists>e. r = Inl e) \<and> alert_waiting c c' evs
              \<or> (\<exists>e. r = Inl e) \<and> alert_in_flight E (first_alert c) c' evs
              \<or> alert_then_closed E (first_alert c) evs"
      by blast
    have "r = Inr () \<longrightarrow> MarkClosed \<in> set evs"
      using alt by (auto simp: alert_then_closed_def)
    moreover have "MarkClosed \<in> set evs \<longrightarrow>
                    (\<exists>txs0 cx s record txs post.
                        evs = map Tx txs0 @ Rec TLS_ALERT (first_alert c) # map Tx txs @ MarkClosed # post
                        \<and> record_write E cx TLS_ALERT (first_alert c) = Inr (s, record)
                        \<and> concat txs = record)"
      using alt alert_marks(1) [of c c' evs] alert_marks(2) [of E "first_alert c" c' evs]
      unfolding alert_then_closed_def by blast
    ultimately show "\<exists>evs. trace w' = trace w @ evs
               \<and> (r = Inr () \<longrightarrow> MarkClosed \<in> set evs)
               \<and> (MarkClosed \<in> set evs \<longrightarrow>
                    (\<exists>txs0 cx s record txs post.
                        evs = map Tx txs0 @ Rec TLS_ALERT (first_alert c) # map Tx txs @ MarkClosed # post
                        \<and> record_write E cx TLS_ALERT (first_alert c) = Inr (s, record)
                        \<and> concat txs = record))"
      using tr by blast
  qed
  have p3: "closing c \<longrightarrow>
            (\<exists>evs. trace w' = trace w @ evs
               \<and> (MarkClosed \<in> set evs \<longrightarrow>
                    (\<exists>txs post. evs = map Tx txs @ MarkClosed # post \<and> concat txs = unsent (out c)))
               \<and> (MarkClosed \<notin> set evs \<longrightarrow>
                    closing c' \<and> (\<exists>e. r = Inl e)
                    \<and> (\<exists>txs. evs = map Tx txs \<and> concat txs @ unsent (out c') = unsent (out c))))"
  proof
    assume cl: "closing c"
    from flush_WRITE_closing [OF fw cl] obtain txs where
      alt: "((\<exists>e. r = Inl e) \<and> trace w' = trace w @ map Tx txs
                 \<and> closing c' \<and> concat txs @ unsent (out c') = unsent (out c))
            \<or> (concat txs = unsent (out c) \<and> (\<exists>post. trace w' = trace w @ map Tx txs @ MarkClosed # post))"
      by blast
    then show "\<exists>evs. trace w' = trace w @ evs
               \<and> (MarkClosed \<in> set evs \<longrightarrow>
                    (\<exists>txs post. evs = map Tx txs @ MarkClosed # post \<and> concat txs = unsent (out c)))
               \<and> (MarkClosed \<notin> set evs \<longrightarrow>
                    closing c' \<and> (\<exists>e. r = Inl e)
                    \<and> (\<exists>txs. evs = map Tx txs \<and> concat txs @ unsent (out c') = unsent (out c)))"
    proof
      assume a: "(\<exists>e. r = Inl e) \<and> trace w' = trace w @ map Tx txs
                 \<and> closing c' \<and> concat txs @ unsent (out c') = unsent (out c)"
      have "MarkClosed \<notin> set (map Tx txs)" by auto
      with a show ?thesis by (intro exI [of _ "map Tx txs"]) blast
    next
      assume a: "concat txs = unsent (out c) \<and> (\<exists>post. trace w' = trace w @ map Tx txs @ MarkClosed # post)"
      then obtain post where tr: "trace w' = trace w @ map Tx txs @ MarkClosed # post" by blast
      have "MarkClosed \<in> set (map Tx txs @ MarkClosed # post)" by simp
      with a tr show ?thesis by (intro exI [of _ "map Tx txs @ MarkClosed # post"]) blast
    qed
  qed
  show "(r = Inr () \<longrightarrow>
         m = 0 \<and> s2n_stuffer_data_available (out c') = 0
         \<and> s2n_stuffer_data_available (reader_alert_out c') \<noteq> 2
         \<and> s2n_stuffer_data_available (writer_alert_out c') \<noteq> 2)
      \<and> (\<not> closing c
            \<and> (s2n_stuffer_data_available (reader_alert_out c) = 2
                 \<or> s2n_stuffer_data_available (writer_alert_out c) = 2) \<longrightarrow>
            (\<exists>evs. trace w' = trace w @ evs
               \<and> (r = Inr () \<longrightarrow> MarkClosed \<in> set evs)
               \<and> (MarkClosed \<in> set evs \<longrightarrow>
                    (\<exists>txs0 cx s record txs post.
                        evs = map Tx txs0 @ Rec TLS_ALERT (first_alert c) # map Tx txs @ MarkClosed # post
                        \<and> record_write E cx TLS_ALERT (first_alert c) = Inr (s, record)
                        \<and> concat txs = record))))
      \<and> (closing c \<longrightarrow>
            (\<exists>evs. trace w' = trace w @ evs
               \<and> (MarkClosed \<in> set evs \<longrightarrow>
                    (\<exists>txs post. evs = map Tx txs @ MarkClosed # post \<and> concat txs = unsent (out c)))
               \<and> (MarkClosed \<notin> set evs \<longrightarrow>
                    closing c' \<and> (\<exists>e. r = Inl e)
                    \<and> (\<exists>txs. evs = map Tx txs \<and> concat txs @ unsent (out c') = unsent (out c)))))"
    by (rule conjI [OF p1 conjI [OF p2 p3]])
next
  assume a: "run E ops c w = Some (cz, wz) \<and> \<not> closing c
         \<and> (s2n_stuffer_data_available (reader_alert_out c) = 2
              \<or> s2n_stuffer_data_available (writer_alert_out c) = 2)"
  then have rn: "run E ops c w = Some (cz, wz)" and nc: "\<not> closing c"
    and pend: "s2n_stuffer_data_available (reader_alert_out c) = 2
                 \<or> s2n_stuffer_data_available (writer_alert_out c) = 2" by simp_all
  have t0: "trace w = trace w @ []" by simp
  from nc have "alert_waiting c c []" by (simp add: alert_waiting_def)
  then have ao: "alert_order E c c []" by (simp add: alert_order_def)
  from run_alert_order [OF pend rn t0 ao] obtain evs where
    tr: "trace wz = trace w @ evs" and ao': "alert_order E c cz evs" by blast
  have "MarkClosed \<in> set evs \<longrightarrow>
                 (\<exists>txs0 cx s record txs post.
                     evs = map Tx txs0 @ Rec TLS_ALERT (first_alert c) # map Tx txs @ MarkClosed # post
                     \<and> record_write E cx TLS_ALERT (first_alert c) = Inr (s, record)
                     \<and> concat txs = record)"
    using ao' alert_marks(1) [of c cz evs] alert_marks(2) [of E "first_alert c" cz evs]
    unfolding alert_order_def alert_then_closed_def by blast
  with tr show "\<exists>evs. trace wz = trace w @ evs
            \<and> (MarkClosed \<in> set evs \<longrightarrow>
                 (\<exists>txs0 cx s record txs post.
                     evs = map Tx txs0 @ Rec TLS_ALERT (first_alert c) # map Tx txs @ MarkClosed # post
                     \<and> record_write E cx TLS_ALERT (first_alert c) = Inr (s, record)
                     \<and> concat txs = record))"
    by blast
qed


text \<open>On the test bed: a reader-driven alert \<open>[2, 40]\<close>, sent and closed in one call; and a
  writer-driven alert \<open>[1, 0]\<close> on a transport that takes two bytes of the record and then
  would block. The first call returns \<open>-1\<close>, the connection closing and the third byte
  unsent; the second call, entered closing, transmits that byte and then marks the
  connection closed. The run of the two calls shows the whole record before the mark.\<close>

theorem flush_postcondition_and_alert_order_witness:
  "s2n_flush ex_env ex_conn_reader_alert (ex_world\<lparr>script := [Accept 100]\<rparr>) 0
     = Some (Inr (), 0, ex_conn\<lparr>closed := True, closing := True, wire_bytes_out := 3\<rparr>,
             ex_world\<lparr>trace := [Rec TLS_ALERT [2, 40], Tx [21, 2, 40], MarkClosed]\<rparr>)
   \<and> s2n_flush ex_env ex_conn_writer_alert (ex_world\<lparr>script := [Accept 2, Refuse EWOULDBLOCK]\<rparr>) 0
     = Some (Inl S2N_ERR_OTHER, 1,
             ex_conn\<lparr>closing := True, out := ex_stuffer\<lparr>written := [21, 1, 0], read_cursor := 2\<rparr>,
                       wire_bytes_out := 2\<rparr>,
             ex_world\<lparr>trace := [Rec TLS_ALERT [1, 0], Tx [21, 1]]\<rparr>)
   \<and> s2n_flush ex_env
        (ex_conn\<lparr>closing := True, out := ex_stuffer\<lparr>written := [21, 1, 0], read_cursor := 2\<rparr>,
                  wire_bytes_out := 2\<rparr>)
        (ex_world\<lparr>script := [Accept 100], trace := [Rec TLS_ALERT [1, 0], Tx [21, 1]]\<rparr>) 0
     = Some (Inr (), 0, ex_conn\<lparr>closed := True, closing := True, wire_bytes_out := 3\<rparr>,
             ex_world\<lparr>trace := [Rec TLS_ALERT [1, 0], Tx [21, 1], Tx [0], MarkClosed]\<rparr>)
   \<and> run ex_env [Flush, Environment [Accept 100] 0, Flush] ex_conn_writer_alert
        (ex_world\<lparr>script := [Accept 2, Refuse EWOULDBLOCK]\<rparr>)
     = Some (ex_conn\<lparr>closed := True, closing := True, wire_bytes_out := 3\<rparr>,
             ex_world\<lparr>trace := [Rec TLS_ALERT [1, 0], Tx [21, 1], Tx [0], MarkClosed]\<rparr>)
   \<and> \<not> closing ex_conn_reader_alert
   \<and> s2n_stuffer_data_available (reader_alert_out ex_conn_reader_alert) = 2
   \<and> \<not> closing ex_conn_writer_alert
   \<and> s2n_stuffer_data_available (writer_alert_out ex_conn_writer_alert) = 2
   \<and> first_alert ex_conn_reader_alert = [2, 40]
   \<and> first_alert ex_conn_writer_alert = [1, 0]"
proof -
  let ?wr = "ex_world\<lparr>script := [Accept 100]\<rparr>"
  let ?ww = "ex_world\<lparr>script := [Accept 2, Refuse EWOULDBLOCK]\<rparr>"
  let ?cm = "ex_conn\<lparr>closing := True, out := ex_stuffer\<lparr>written := [21, 1, 0], read_cursor := 2\<rparr>,
                      wire_bytes_out := 2\<rparr>"
  let ?wm = "ex_world\<lparr>script := [Accept 100], trace := [Rec TLS_ALERT [1, 0], Tx [21, 1]]\<rparr>"
  let ?ops = "[Flush, Environment [Accept 100] 0, Flush]"
  let ?cf = "ex_conn\<lparr>closed := True, closing := True, wire_bytes_out := 3\<rparr>"
  have r: "s2n_flush ex_env ex_conn_reader_alert ?wr 0
     = Some (Inr (), 0, ?cf, ex_world\<lparr>trace := [Rec TLS_ALERT [2, 40], Tx [21, 2, 40], MarkClosed]\<rparr>)"
    by (simp add: eval_defs ex_defs ex_conn_reader_alert_def)
  have w: "s2n_flush ex_env ex_conn_writer_alert ?ww 0
     = Some (Inl S2N_ERR_OTHER, 1, ?cm, ex_world\<lparr>trace := [Rec TLS_ALERT [1, 0], Tx [21, 1]]\<rparr>)"
    by (simp add: eval_defs ex_defs ex_conn_writer_alert_def)
  have m: "s2n_flush ex_env ?cm ?wm 0
     = Some (Inr (), 0, ?cf, ex_world\<lparr>trace := [Rec TLS_ALERT [1, 0], Tx [21, 1], Tx [0], MarkClosed]\<rparr>)"
    by (simp add: eval_defs ex_defs)
  have rn: "run ex_env ?ops ex_conn_writer_alert ?ww
     = Some (?cf, ex_world\<lparr>trace := [Rec TLS_ALERT [1, 0], Tx [21, 1], Tx [0], MarkClosed]\<rparr>)"
    by (simp add: eval_defs ex_defs ex_conn_writer_alert_def)
  have p: "\<not> closing ex_conn_reader_alert
     \<and> s2n_stuffer_data_available (reader_alert_out ex_conn_reader_alert) = 2
     \<and> \<not> closing ex_conn_writer_alert
     \<and> s2n_stuffer_data_available (writer_alert_out ex_conn_writer_alert) = 2
     \<and> first_alert ex_conn_reader_alert = [2, 40]
     \<and> first_alert ex_conn_writer_alert = [1, 0]"
    by (simp add: first_alert_def s2n_stuffer_data_available_def ex_defs ex_conn_reader_alert_def ex_conn_writer_alert_def)
  have cm: "closing ?cm" by simp
  note t1 = flush_postcondition_and_alert_order
    [of ex_env ex_conn_reader_alert ?wr 0 "Inr ()" 0 ?cf
        "ex_world\<lparr>trace := [Rec TLS_ALERT [2, 40], Tx [21, 2, 40], MarkClosed]\<rparr>"
        "[]" ex_conn_reader_alert ?wr]
  note t2 = flush_postcondition_and_alert_order
    [of ex_env ex_conn_writer_alert ?ww 0 "Inl S2N_ERR_OTHER" 1 ?cm
        "ex_world\<lparr>trace := [Rec TLS_ALERT [1, 0], Tx [21, 1]]\<rparr>"
        ?ops ?cf "ex_world\<lparr>trace := [Rec TLS_ALERT [1, 0], Tx [21, 1], Tx [0], MarkClosed]\<rparr>"]
  note t3 = flush_postcondition_and_alert_order
    [of ex_env ?cm ?wm 0 "Inr ()" 0 ?cf
        "ex_world\<lparr>trace := [Rec TLS_ALERT [1, 0], Tx [21, 1], Tx [0], MarkClosed]\<rparr>"
        "[]" ?cm ?wm]
  from t1 t2 t3 r w m rn p cm show ?thesis by simp
qed

text \<open>The claim as stated fails with both alerts pending: the reader-driven alert goes out,
  the connection is marked closed, and only then is the writer-driven alert \<open>[1, 0]\<close> handed
  to the record writer and transmitted. Up to the first mark, the trace holds the
  reader-driven alert only. With a wipe that clears the alert stuffers, the writer-driven
  alert is not transmitted at all.\<close>

theorem flush_second_alert_after_close:
  "\<not> closing ex_conn_both_alerts
   \<and> s2n_stuffer_data_available (reader_alert_out ex_conn_both_alerts) = 2
   \<and> s2n_stuffer_data_available (writer_alert_out ex_conn_both_alerts) = 2
   \<and> take 2 (written (writer_alert_out ex_conn_both_alerts)) = [1, 0]
   \<and> s2n_flush ex_env ex_conn_both_alerts (ex_world\<lparr>script := [Accept 100, Accept 100]\<rparr>) 0
     = Some (Inr (), 0, ex_conn\<lparr>closed := True, closing := True, wire_bytes_out := 6\<rparr>,
             ex_world\<lparr>trace := [Rec TLS_ALERT [2, 40], Tx [21, 2, 40], MarkClosed,
                                 Rec TLS_ALERT [1, 0], Tx [21, 1, 0], MarkClosed]\<rparr>)
   \<and> takeWhile (\<lambda>ev. ev \<noteq> MarkClosed)
        (trace (snd (snd (snd (the
           (s2n_flush ex_env ex_conn_both_alerts (ex_world\<lparr>script := [Accept 100, Accept 100]\<rparr>) 0))))))
     = [Rec TLS_ALERT [2, 40], Tx [21, 2, 40]]
   \<and> s2n_flush ex_env_wiping ex_conn_both_alerts (ex_world\<lparr>script := [Accept 100, Accept 100]\<rparr>) 0
     = Some (Inr (), 0, ex_conn\<lparr>closed := True, wire_bytes_out := 3\<rparr>,
             ex_world\<lparr>script := [Accept 100],
                       trace := [Rec TLS_ALERT [2, 40], Tx [21, 2, 40], MarkClosed]\<rparr>)"
  by (simp add: eval_defs ex_defs ex_conn_both_alerts_def ex_env_wiping_def)

subsection \<open>The fragment-size decision\<close>

lemma elapsed_millis_unat:
  "unat (ucast ((e :: 64 word) div 1000000) :: 32 word) = (unat e div 1000000) mod 2 ^ 32"
  by (simp add: unsigned_ucast_eq unat_div take_bit_eq_mod)

lemma elapsed_millis_below:
  assumes "unat (e :: 64 word) < unat (thr :: 32 word) * 1000000"
  shows "\<not> thr \<le> (ucast (e div 1000000) :: 32 word)"
proof -
  from assms have "unat e div 1000000 < unat thr"
    by (simp add: div_less_iff_less_mult)
  moreover have "unat thr < 2 ^ 32"
    using unsigned_less [of thr] by simp
  ultimately have "(unat e div 1000000) mod 2 ^ 32 < unat thr"
    by simp
  then show ?thesis
    by (simp add: word_le_nat_alt elapsed_millis_unat not_le)
qed

lemma adjust_decide_frame:
  "adjust_decide E c w = (n, c1) \<Longrightarrow>
     curr_max_fragment_size c1 = curr_max_fragment_size c \<and> config c1 = config c \<and> out c1 = out c"
  by (auto simp: adjust_decide_def Let_def s2n_timer_reset_def split: if_splits)

text \<open>
  C2. When \<^verbatim>\<open>adjust_record_size_if_needed\<close> has decided on a size \<open>n\<close> other than the current
  one: if the resize of \<^verbatim>\<open>conn->out\<close> fails with \<^verbatim>\<open>S2N_ERR_REALLOC\<close> the function returns 0 and
  \<^verbatim>\<open>curr_max_fragment_size\<close> keeps its value; if it fails with any other error the function
  returns \<open>-1\<close> (and the size keeps its value); if it succeeds the new size is installed;
  and the size changes only if the resize succeeded.
\<close>

theorem adjust_resize_failure_policy:
  assumes "adjust_decide E c w = (n, c1)" and "n \<noteq> curr_max_fragment_size c"
  shows "(s2n_stuffer_resize E (out c1) (s2n_tls_record_length E n) = Inl S2N_ERR_REALLOC \<longrightarrow>
            adjust_record_size_if_needed E c w = (Inr (), c1) \<and>
            curr_max_fragment_size c1 = curr_max_fragment_size c)
       \<and> (\<forall>e. s2n_stuffer_resize E (out c1) (s2n_tls_record_length E n) = Inl e \<and> e \<noteq> S2N_ERR_REALLOC \<longrightarrow>
            adjust_record_size_if_needed E c w = (Inl e, c1) \<and>
            curr_max_fragment_size c1 = curr_max_fragment_size c)
       \<and> (\<forall>st. s2n_stuffer_resize E (out c1) (s2n_tls_record_length E n) = Inr st \<longrightarrow>
            adjust_record_size_if_needed E c w = (Inr (), c1\<lparr>out := st, curr_max_fragment_size := n\<rparr>))
       \<and> (curr_max_fragment_size (snd (adjust_record_size_if_needed E c w)) \<noteq> curr_max_fragment_size c \<longrightarrow>
            (\<exists>st. s2n_stuffer_resize E (out c1) (s2n_tls_record_length E n) = Inr st))"
  using assms adjust_decide_frame [OF assms(1)]
  by (cases "s2n_stuffer_resize E (out c1) (s2n_tls_record_length E n)")
     (simp_all add: adjust_record_size_if_needed_def Let_def)

text \<open>The policy on the test bed, the byte counter at the threshold so that growth to 16384
  is decided: a resize failing with \<^verbatim>\<open>S2N_ERR_REALLOC\<close> gives success and size 1435, one
  failing otherwise gives the error and size 1435, a successful one gives size 16384.\<close>

theorem adjust_resize_failure_policy_witness:
  "adjust_decide ex_env (ex_conn\<lparr>dyn_record_sz_bytes_out := 10\<rparr>) ex_world
     = (16384, ex_conn\<lparr>dyn_record_sz_bytes_out := 10\<rparr>)
   \<and> (16384 :: 16 word) \<noteq> curr_max_fragment_size (ex_conn\<lparr>dyn_record_sz_bytes_out := 10\<rparr>)
   \<and> adjust_record_size_if_needed (ex_env\<lparr>resize_fails := \<lambda>st sz. Some S2N_ERR_REALLOC\<rparr>)
        (ex_conn\<lparr>dyn_record_sz_bytes_out := 10\<rparr>) ex_world
       = (Inr (), ex_conn\<lparr>dyn_record_sz_bytes_out := 10\<rparr>)
   \<and> fst (adjust_record_size_if_needed (ex_env\<lparr>resize_fails := \<lambda>st sz. Some S2N_ERR_OTHER\<rparr>)
        (ex_conn\<lparr>dyn_record_sz_bytes_out := 10\<rparr>) ex_world) = Inl S2N_ERR_OTHER
   \<and> curr_max_fragment_size (snd (adjust_record_size_if_needed ex_env
        (ex_conn\<lparr>dyn_record_sz_bytes_out := 10\<rparr>) ex_world)) = 16384"
proof -
  let ?c = "ex_conn\<lparr>dyn_record_sz_bytes_out := 10\<rparr>"
  have d: "adjust_decide E ?c ex_world = (16384, ?c)" for E :: "unit env"
    by (simp add: adjust_decide_def s2n_timer_reset_def ex_defs)
  have n: "(16384 :: 16 word) \<noteq> curr_max_fragment_size ?c"
    by (simp add: ex_defs)
  show ?thesis
    using adjust_resize_failure_policy [OF d n, of "ex_env\<lparr>resize_fails := \<lambda>st sz. Some S2N_ERR_REALLOC\<rparr>"]
      adjust_resize_failure_policy [OF d n, of "ex_env\<lparr>resize_fails := \<lambda>st sz. Some S2N_ERR_OTHER\<rparr>"]
      adjust_resize_failure_policy [OF d n, of ex_env] d n
    by (simp add: s2n_stuffer_resize_def) (simp add: ex_defs)
qed

text \<open>
  C9. At the maximum size the idle test compares whole milliseconds: the shrink is decided
  exactly when the threshold is at most the elapsed nanoseconds divided by 1,000,000,
  truncated (and reduced to the 32 bits of \<^verbatim>\<open>elapsed_millis\<close>). Hence an elapsed time strictly
  below \<open>idle_millis_threshold * 10\<^sup>6\<close> nanoseconds never shrinks: the call returns 0 and
  changes nothing but the idle timer, which is reset.
\<close>

theorem idle_below_threshold_no_shrink:
  assumes "curr_max_fragment_size c = max_fragment_size (dyn_record_size (config c))"
  shows "adjust_decide E c w =
           (if unat (idle_millis_threshold (dyn_record_size (config c)))
                 \<le> (unat (now w - write_idle_timer c) div 1000000) mod 2 ^ 32
            then (S2N_DEFAULT_FRAGMENT_LENGTH E,
                  c\<lparr>write_idle_timer := now w, dyn_record_sz_bytes_out := 0\<rparr>)
            else (curr_max_fragment_size c, c\<lparr>write_idle_timer := now w\<rparr>))
       \<and> (unat (now w - write_idle_timer c)
             < unat (idle_millis_threshold (dyn_record_size (config c))) * 1000000 \<longrightarrow>
           adjust_record_size_if_needed E c w = (Inr (), c\<lparr>write_idle_timer := now w\<rparr>))"
proof -
  have "adjust_record_size_if_needed E c w = (Inr (), c\<lparr>write_idle_timer := now w\<rparr>)"
    if "unat (now w - write_idle_timer c)
          < unat (idle_millis_threshold (dyn_record_size (config c))) * 1000000"
    using assms elapsed_millis_below [OF that]
    by (simp add: adjust_record_size_if_needed_def adjust_decide_def Let_def s2n_timer_reset_def)
  moreover have "adjust_decide E c w =
           (if unat (idle_millis_threshold (dyn_record_size (config c)))
                 \<le> (unat (now w - write_idle_timer c) div 1000000) mod 2 ^ 32
            then (S2N_DEFAULT_FRAGMENT_LENGTH E,
                  c\<lparr>write_idle_timer := now w, dyn_record_sz_bytes_out := 0\<rparr>)
            else (curr_max_fragment_size c, c\<lparr>write_idle_timer := now w\<rparr>))"
    using assms
    by (simp add: adjust_decide_def Let_def s2n_timer_reset_def word_le_nat_alt
          elapsed_millis_unat)
  ultimately show ?thesis by blast
qed

text \<open>On the test bed at size 16384 with a threshold of 10 ms: after 9,999,999 ns, one
  nanosecond short of the threshold, the size is still 16384.\<close>

theorem idle_below_threshold_no_shrink_witness:
  "curr_max_fragment_size
     (snd (adjust_record_size_if_needed ex_env (ex_conn\<lparr>curr_max_fragment_size := 16384\<rparr>)
             (ex_world\<lparr>now := 9999999\<rparr>))) = 16384"
proof -
  let ?c = "ex_conn\<lparr>curr_max_fragment_size := 16384\<rparr>"
  let ?w = "ex_world\<lparr>now := 9999999\<rparr>"
  have a: "curr_max_fragment_size ?c = max_fragment_size (dyn_record_size (config ?c))"
    by (simp add: ex_defs)
  have b: "unat (now ?w - write_idle_timer ?c)
             < unat (idle_millis_threshold (dyn_record_size (config ?c))) * 1000000"
    by (simp add: ex_defs)
  from idle_below_threshold_no_shrink [OF a, of ex_env ?w] b
  have "adjust_record_size_if_needed ex_env ?c ?w = (Inr (), ?c\<lparr>write_idle_timer := now ?w\<rparr>)"
    by blast
  then show ?thesis by simp
qed

text \<open>
  C7, amended. For a call of \<^verbatim>\<open>adjust_record_size_if_needed\<close> at the maximum size: the idle
  timer is reset to the current time in every case; if the elapsed whole milliseconds
  (a number below \<open>2\<^sup>3\<^sup>2\<close>) reach \<^verbatim>\<open>idle_millis_threshold\<close>, the byte counter is reset to 0 and
  the size becomes \<^verbatim>\<open>S2N_DEFAULT_FRAGMENT_LENGTH\<close> when the resize of \<^verbatim>\<open>conn->out\<close> succeeds,
  and stays as it was when the resize fails; if they are below the threshold, nothing but
  the timer changes. The claim as stated, that the size shrinks whenever the threshold is
  reached, fails when the resize fails.
\<close>

theorem shrink_when_idle:
  assumes "curr_max_fragment_size c = max_fragment_size (dyn_record_size (config c))"
  shows "write_idle_timer (snd (adjust_record_size_if_needed E c w)) = now w
     \<and> (unat (now w - write_idle_timer c) div 1000000 < 2 ^ 32
          \<and> unat (idle_millis_threshold (dyn_record_size (config c)))
               \<le> unat (now w - write_idle_timer c) div 1000000 \<longrightarrow>
          dyn_record_sz_bytes_out (snd (adjust_record_size_if_needed E c w)) = 0
          \<and> (resize_fails E (out c) (s2n_tls_record_length E (S2N_DEFAULT_FRAGMENT_LENGTH E)) = None \<longrightarrow>
               fst (adjust_record_size_if_needed E c w) = Inr ()
               \<and> curr_max_fragment_size (snd (adjust_record_size_if_needed E c w))
                    = S2N_DEFAULT_FRAGMENT_LENGTH E)
          \<and> (resize_fails E (out c) (s2n_tls_record_length E (S2N_DEFAULT_FRAGMENT_LENGTH E)) \<noteq> None \<longrightarrow>
               curr_max_fragment_size (snd (adjust_record_size_if_needed E c w))
                    = curr_max_fragment_size c))
     \<and> (unat (now w - write_idle_timer c) div 1000000
            < unat (idle_millis_threshold (dyn_record_size (config c))) \<longrightarrow>
          adjust_record_size_if_needed E c w = (Inr (), c\<lparr>write_idle_timer := now w\<rparr>))"
proof -
  let ?e = "now w - write_idle_timer c"
  let ?thr = "idle_millis_threshold (dyn_record_size (config c))"
  have timer: "write_idle_timer (snd (adjust_record_size_if_needed E c w)) = now w"
    using assms
    by (simp add: adjust_record_size_if_needed_def adjust_decide_def Let_def s2n_timer_reset_def
             s2n_stuffer_resize_def split: option.split)
  have below: "adjust_record_size_if_needed E c w = (Inr (), c\<lparr>write_idle_timer := now w\<rparr>)"
    if "unat ?e div 1000000 < unat ?thr"
  proof -
    from that have "unat ?e < unat ?thr * 1000000"
      by (simp add: div_less_iff_less_mult)
    from elapsed_millis_below [OF this] assms show ?thesis
      by (simp add: adjust_record_size_if_needed_def adjust_decide_def Let_def s2n_timer_reset_def)
  qed
  have above: "dyn_record_sz_bytes_out (snd (adjust_record_size_if_needed E c w)) = 0
          \<and> (resize_fails E (out c) (s2n_tls_record_length E (S2N_DEFAULT_FRAGMENT_LENGTH E)) = None \<longrightarrow>
               fst (adjust_record_size_if_needed E c w) = Inr ()
               \<and> curr_max_fragment_size (snd (adjust_record_size_if_needed E c w))
                    = S2N_DEFAULT_FRAGMENT_LENGTH E)
          \<and> (resize_fails E (out c) (s2n_tls_record_length E (S2N_DEFAULT_FRAGMENT_LENGTH E)) \<noteq> None \<longrightarrow>
               curr_max_fragment_size (snd (adjust_record_size_if_needed E c w))
                    = curr_max_fragment_size c)"
    if "unat ?e div 1000000 < 2 ^ 32" and "unat ?thr \<le> unat ?e div 1000000"
  proof -
    from that have "?thr \<le> (ucast (?e div 1000000) :: 32 word)"
      by (simp add: word_le_nat_alt elapsed_millis_unat)
    with assms show ?thesis
      by (auto simp: adjust_record_size_if_needed_def adjust_decide_def Let_def s2n_timer_reset_def
             s2n_stuffer_resize_def split: option.split)
  qed
  from timer below above show ?thesis by blast
qed

text \<open>On the test bed at size 16384 with 500 bytes counted: 11 ms after the last reset the
  size is 1435 and the counter 0; 9 ms after it the size is 16384 and the counter 500.\<close>

theorem shrink_when_idle_witness:
  "adjust_record_size_if_needed ex_env
       (ex_conn\<lparr>curr_max_fragment_size := 16384, dyn_record_sz_bytes_out := 500\<rparr>)
       (ex_world\<lparr>now := 11000000\<rparr>)
     = (Inr (), ex_conn\<lparr>curr_max_fragment_size := 1435, dyn_record_sz_bytes_out := 0,
                        write_idle_timer := 11000000, out := ex_stuffer\<lparr>blob_size := 1440\<rparr>\<rparr>)
   \<and> adjust_record_size_if_needed ex_env
       (ex_conn\<lparr>curr_max_fragment_size := 16384, dyn_record_sz_bytes_out := 500\<rparr>)
       (ex_world\<lparr>now := 9000000\<rparr>)
     = (Inr (), ex_conn\<lparr>curr_max_fragment_size := 16384, dyn_record_sz_bytes_out := 500,
                        write_idle_timer := 9000000\<rparr>)"
proof -
  let ?c = "ex_conn\<lparr>curr_max_fragment_size := 16384, dyn_record_sz_bytes_out := 500\<rparr>"
  have m: "curr_max_fragment_size ?c = max_fragment_size (dyn_record_size (config ?c))"
    by (simp add: ex_defs)
  have a: "adjust_record_size_if_needed ex_env ?c (ex_world\<lparr>now := 11000000\<rparr>)
     = (Inr (), ex_conn\<lparr>curr_max_fragment_size := 1435, dyn_record_sz_bytes_out := 0,
                        write_idle_timer := 11000000, out := ex_stuffer\<lparr>blob_size := 1440\<rparr>\<rparr>)"
    by (simp add: eval_defs ex_defs)
  have b: "unat (now (ex_world\<lparr>now := 9000000\<rparr>) - write_idle_timer ?c) div 1000000
            < unat (idle_millis_threshold (dyn_record_size (config ?c)))"
    by (simp add: ex_defs)
  from shrink_when_idle [OF m, of ex_env "ex_world\<lparr>now := 9000000\<rparr>"] b
  have "adjust_record_size_if_needed ex_env ?c (ex_world\<lparr>now := 9000000\<rparr>)
          = (Inr (), ?c\<lparr>write_idle_timer := now (ex_world\<lparr>now := 9000000\<rparr>)\<rparr>)"
    by blast
  with a show ?thesis by (simp add: ex_defs)
qed

text \<open>The claim as stated fails when memory is short: at size 16384, 11 ms idle with a
  threshold of 10 ms, the call returns 0, the counter is reset, and the size is still 16384,
  not the default 1435.\<close>

theorem idle_without_shrink:
  "curr_max_fragment_size (ex_conn\<lparr>curr_max_fragment_size := 16384, dyn_record_sz_bytes_out := 500\<rparr>)
     = max_fragment_size (dyn_record_size (config ex_conn))
   \<and> unat (idle_millis_threshold (dyn_record_size (config ex_conn))) * 1000000
       \<le> unat (now (ex_world\<lparr>now := 11000000\<rparr>) - write_idle_timer ex_conn)
   \<and> S2N_DEFAULT_FRAGMENT_LENGTH ex_env_no_memory = 1435
   \<and> adjust_record_size_if_needed ex_env_no_memory
        (ex_conn\<lparr>curr_max_fragment_size := 16384, dyn_record_sz_bytes_out := 500\<rparr>)
        (ex_world\<lparr>now := 11000000\<rparr>)
      = (Inr (), ex_conn\<lparr>curr_max_fragment_size := 16384, dyn_record_sz_bytes_out := 0,
                         write_idle_timer := 11000000\<rparr>)"
  by (simp add: adjust_record_size_if_needed_def adjust_decide_def Let_def s2n_timer_reset_def
        s2n_stuffer_resize_def ex_defs ex_env_no_memory_def)

text \<open>Beyond \<open>2\<^sup>3\<^sup>2\<close> milliseconds the 32-bit \<^verbatim>\<open>elapsed_millis\<close> wraps: after exactly \<open>2\<^sup>3\<^sup>2\<close> ms
  of idleness it is 0, below every positive threshold.\<close>

lemma elapsed_millis_wraps:
  "(ucast ((4294967296000000 :: 64 word) div 1000000) :: 32 word) = 0"
  by simp

text \<open>
  C4, amended. For a call of \<^verbatim>\<open>adjust_record_size_if_needed\<close> at a size other than the
  maximum, the threshold being \<open>N\<close>: while the byte counter is below \<open>N\<close> the call changes
  nothing, and a \<^verbatim>\<open>s2n_send\<close> whose flush left this connection keeps the size and adds the
  bytes it returns to the counter only after the adjustment, also when they bring the
  counter to \<open>N\<close> or beyond; once the counter is at least \<open>N\<close>, the call switches the size to
  \<^verbatim>\<open>config.max_fragment_size\<close> when the resize of \<^verbatim>\<open>conn->out\<close> succeeds and leaves it as it
  was when the resize fails. The claim as stated, that the first adjustment seeing the
  counter at \<open>N\<close> switches, fails when the resize fails.
\<close>

theorem grow_at_threshold:
  assumes "curr_max_fragment_size c \<noteq> max_fragment_size (dyn_record_size (config c))"
  shows "(dyn_record_sz_bytes_out c < bytes_out_threshold (dyn_record_size (config c)) \<longrightarrow>
            adjust_record_size_if_needed E c w = (Inr (), c)
            \<and> (\<forall>c0 w0 more0 pm buf k m c' w'.
                  \<not> closed c0
                  \<and> s2n_flush E c0 w0 more0 = Some (Inr (), pm, c, w)
                  \<and> s2n_send E c0 w0 buf more0 = Some (Inr k, m, c', w') \<longrightarrow>
                  curr_max_fragment_size c' = curr_max_fragment_size c
                  \<and> dyn_record_sz_bytes_out c' = dyn_record_sz_bytes_out c + of_nat k))
       \<and> (bytes_out_threshold (dyn_record_size (config c)) \<le> dyn_record_sz_bytes_out c \<longrightarrow>
            (resize_fails E (out c)
               (s2n_tls_record_length E (max_fragment_size (dyn_record_size (config c)))) = None \<longrightarrow>
               fst (adjust_record_size_if_needed E c w) = Inr ()
               \<and> curr_max_fragment_size (snd (adjust_record_size_if_needed E c w))
                    = max_fragment_size (dyn_record_size (config c)))
            \<and> (resize_fails E (out c)
               (s2n_tls_record_length E (max_fragment_size (dyn_record_size (config c)))) \<noteq> None \<longrightarrow>
               curr_max_fragment_size (snd (adjust_record_size_if_needed E c w))
                    = curr_max_fragment_size c))"
proof -
  let ?thr = "bytes_out_threshold (dyn_record_size (config c))"
  have below: "adjust_record_size_if_needed E c w = (Inr (), c)"
    if "dyn_record_sz_bytes_out c < ?thr"
  proof -
    from that have "\<not> ?thr \<le> dyn_record_sz_bytes_out c" by (simp add: not_le)
    with assms show ?thesis
      by (simp add: adjust_record_size_if_needed_def adjust_decide_def Let_def)
  qed
  have sendpart: "curr_max_fragment_size c' = curr_max_fragment_size c
                  \<and> dyn_record_sz_bytes_out c' = dyn_record_sz_bytes_out c + of_nat k"
    if lt: "dyn_record_sz_bytes_out c < ?thr"
      and nc: "\<not> closed c0"
      and fl: "s2n_flush E c0 w0 more0 = Some (Inr (), pm, c, w)"
      and sd: "s2n_send E c0 w0 buf more0 = Some (Inr k, m, c', w')"
    for c0 w0 more0 pm buf k m c' w'
  proof -
    from sd nc fl below [OF lt] obtain mps where
      "send_loop E mps buf 0 False 1 c w = Some (Inr k, m, c', w')"
      by (auto simp: s2n_send_def split: sum.splits)
    from send_loop_frame [OF this] show ?thesis by simp
  qed
  have above: "(resize_fails E (out c)
               (s2n_tls_record_length E (max_fragment_size (dyn_record_size (config c)))) = None \<longrightarrow>
               fst (adjust_record_size_if_needed E c w) = Inr ()
               \<and> curr_max_fragment_size (snd (adjust_record_size_if_needed E c w))
                    = max_fragment_size (dyn_record_size (config c)))
            \<and> (resize_fails E (out c)
               (s2n_tls_record_length E (max_fragment_size (dyn_record_size (config c)))) \<noteq> None \<longrightarrow>
               curr_max_fragment_size (snd (adjust_record_size_if_needed E c w))
                    = curr_max_fragment_size c)"
    if "?thr \<le> dyn_record_sz_bytes_out c"
    using that assms
    by (auto simp: adjust_record_size_if_needed_def adjust_decide_def Let_def s2n_timer_reset_def
          s2n_stuffer_resize_def split: option.splits)
  from below sendpart above show ?thesis by blast
qed


text \<open>On the test bed, threshold 10: with 9 bytes counted the adjustment changes nothing and a
  \<^verbatim>\<open>s2n_send\<close> of one byte leaves the size at 1435 with the counter at 10; the adjustment
  that then sees 10 switches to 16384.\<close>

theorem grow_at_threshold_witness:
  "adjust_record_size_if_needed ex_env (ex_conn\<lparr>dyn_record_sz_bytes_out := 9\<rparr>) ex_world
     = (Inr (), ex_conn\<lparr>dyn_record_sz_bytes_out := 9\<rparr>)
   \<and> s2n_send ex_env (ex_conn\<lparr>dyn_record_sz_bytes_out := 9\<rparr>) (ex_world\<lparr>script := [Accept 100]\<rparr>) [7] 0
     = Some (Inr 1, 0,
             ex_conn\<lparr>dyn_record_sz_bytes_out := 10, wire_bytes_out := 2,
                     out := ex_stuffer\<lparr>written := [23, 7], read_cursor := 2\<rparr>\<rparr>,
             ex_world\<lparr>trace := [Rec TLS_APPLICATION_DATA [7], Tx [23, 7]]\<rparr>)
   \<and> curr_max_fragment_size
       (snd (adjust_record_size_if_needed ex_env (ex_conn\<lparr>dyn_record_sz_bytes_out := 10\<rparr>) ex_world))
     = 16384"
proof -
  let ?c9 = "ex_conn\<lparr>dyn_record_sz_bytes_out := 9\<rparr>"
  let ?c10 = "ex_conn\<lparr>dyn_record_sz_bytes_out := 10\<rparr>"
  let ?w = "ex_world\<lparr>script := [Accept 100]\<rparr>"
  have m9: "curr_max_fragment_size ?c9 \<noteq> max_fragment_size (dyn_record_size (config ?c9))"
    and m10: "curr_max_fragment_size ?c10 \<noteq> max_fragment_size (dyn_record_size (config ?c10))"
    by (simp_all add: ex_defs)
  have lt: "dyn_record_sz_bytes_out ?c9 < bytes_out_threshold (dyn_record_size (config ?c9))"
    and ge: "bytes_out_threshold (dyn_record_size (config ?c10)) \<le> dyn_record_sz_bytes_out ?c10"
    and ok: "resize_fails ex_env (out ?c10)
               (s2n_tls_record_length ex_env (max_fragment_size (dyn_record_size (config ?c10)))) = None"
    by (simp_all add: ex_defs)
  have nc: "\<not> closed ?c9" by (simp add: ex_defs)
  have fl: "s2n_flush ex_env ?c9 ?w 0 = Some (Inr (), 0, ?c9, ?w)"
    by (simp add: eval_defs ex_defs)
  have sd: "s2n_send ex_env ?c9 ?w [7] 0
     = Some (Inr 1, 0,
             ex_conn\<lparr>dyn_record_sz_bytes_out := 10, wire_bytes_out := 2,
                     out := ex_stuffer\<lparr>written := [23, 7], read_cursor := 2\<rparr>\<rparr>,
             ex_world\<lparr>trace := [Rec TLS_APPLICATION_DATA [7], Tx [23, 7]]\<rparr>)"
    by (simp add: eval_defs ex_defs)
  from grow_at_threshold [OF m9, of ex_env ?w] lt
  have a9: "adjust_record_size_if_needed ex_env ?c9 ?w = (Inr (), ?c9)"
    and s9: "\<And>c0 w0 more0 pm buf k m c' w'.
                  \<not> closed c0
                  \<and> s2n_flush ex_env c0 w0 more0 = Some (Inr (), pm, ?c9, ?w)
                  \<and> s2n_send ex_env c0 w0 buf more0 = Some (Inr k, m, c', w') \<longrightarrow>
                  curr_max_fragment_size c' = curr_max_fragment_size ?c9
                  \<and> dyn_record_sz_bytes_out c' = dyn_record_sz_bytes_out ?c9 + of_nat k"
    by blast+
  from s9 [of ?c9 ?w 0 0 "[7]" 1] nc fl sd
  have "curr_max_fragment_size (ex_conn\<lparr>dyn_record_sz_bytes_out := 10, wire_bytes_out := 2,
                     out := ex_stuffer\<lparr>written := [23, 7], read_cursor := 2\<rparr>\<rparr>) = curr_max_fragment_size ?c9"
    by blast
  from grow_at_threshold [OF m9, of ex_env ex_world] lt
  have "adjust_record_size_if_needed ex_env ?c9 ex_world = (Inr (), ?c9)" by blast
  moreover from grow_at_threshold [OF m10, of ex_env ex_world] ge ok
  have "curr_max_fragment_size (snd (adjust_record_size_if_needed ex_env ?c10 ex_world)) = 16384"
    by (simp add: ex_defs)
  ultimately show ?thesis using sd by simp
qed

text \<open>The claim as stated fails when memory is short: the adjustment sees the counter at
  the threshold 10, returns 0, and the size is still the default 1435, not 16384.\<close>

theorem threshold_without_growth:
  "curr_max_fragment_size (ex_conn\<lparr>dyn_record_sz_bytes_out := 10\<rparr>) = S2N_DEFAULT_FRAGMENT_LENGTH ex_env_no_memory
   \<and> max_fragment_size (dyn_record_size (config ex_conn)) = 16384
   \<and> bytes_out_threshold (dyn_record_size (config ex_conn))
       \<le> dyn_record_sz_bytes_out (ex_conn\<lparr>dyn_record_sz_bytes_out := 10\<rparr>)
   \<and> adjust_record_size_if_needed ex_env_no_memory (ex_conn\<lparr>dyn_record_sz_bytes_out := 10\<rparr>) ex_world
      = (Inr (), ex_conn\<lparr>dyn_record_sz_bytes_out := 10\<rparr>)
   \<and> curr_max_fragment_size (ex_conn\<lparr>dyn_record_sz_bytes_out := 10\<rparr>) = 1435"
  by (simp add: adjust_record_size_if_needed_def adjust_decide_def Let_def s2n_timer_reset_def
        s2n_stuffer_resize_def ex_defs ex_env_no_memory_def)

subsection \<open>The two-valued fragment size\<close>

lemma adjust_two_valued:
  "two_valued E cfg c \<Longrightarrow> two_valued E cfg (snd (adjust_record_size_if_needed E c w))"
  by (auto simp: two_valued_def adjust_record_size_if_needed_def adjust_decide_def Let_def
        s2n_timer_reset_def split: sum.splits prod.splits if_splits)

lemma flush_pass_two_valued:
  assumes p: "flush_pass E pmore c w = Some (fl, m, c', w')"
    and wk: "wipe_keeps_sizing E" and tv: "two_valued E cfg c"
  shows "two_valued E cfg c'"
proof -
  from p obtain r1 c1 w1 where d: "flush_write_pending c w = Some (r1, c1, w1)"
    by (auto simp: flush_pass_def split: option.splits)
  note f = flush_write_pending_fields [OF d]
  from tv f have tv1: "two_valued E cfg c1" by (simp add: two_valued_def)
  then have "two_valued E cfg (c1\<lparr>closed := True\<rparr>)" by (simp add: two_valued_def)
  with wk have tv2: "two_valued E cfg (snd (s2n_connection_wipe E (c1\<lparr>closed := True\<rparr>)))"
    by (simp add: wipe_keeps_sizing_def)
  from p d tv1 tv2 show ?thesis
    by (auto simp: flush_pass_def flush_blocks two_valued_def
             split: sum.splits if_splits option.splits prod.splits)
qed

lemma flush_WRITE_two_valued:
  assumes "flush_WRITE E pmore c w = Some y"
  shows "wipe_keeps_sizing E \<longrightarrow> two_valued E cfg c \<longrightarrow> two_valued E cfg (fst (snd (snd y)))"
proof (rule flush_WRITE.raw_induct
    [where P = "\<lambda>E pmore c w y. wipe_keeps_sizing E \<longrightarrow> two_valued E cfg c \<longrightarrow> two_valued E cfg (fst (snd (snd y)))",
     OF _ assms], goal_cases)
  case (1 f E pmore c w y)
  from "1"(2) obtain fl m1 c1 w1 where p: "flush_pass E pmore c w = Some (fl, m1, c1, w1)"
    by (auto split: option.splits)
  show ?case
  proof (intro impI)
    assume wk: "wipe_keeps_sizing E" and tv: "two_valued E cfg c"
    from flush_pass_two_valued [OF p wk tv] have tv1: "two_valued E cfg c1" .
    show "two_valued E cfg (fst (snd (snd y)))"
    proof (cases fl)
      case (Return r)
      with "1"(2) p tv1 show ?thesis by auto
    next
      case (Continue u)
      with "1"(2) p have "f E m1 c1 w1 = Some y" by simp
      from "1"(1) [OF this] wk tv1 show ?thesis by simp
    qed
  qed
qed

lemma s2n_flush_two_valued:
  assumes "s2n_flush E c w more0 = Some (r, m, c', w')"
    and "wipe_keeps_sizing E" and "two_valued E cfg c"
  shows "two_valued E cfg c'"
  using flush_WRITE_two_valued [of E 1 c w "(r, m, c', w')" cfg] assms
  by (simp add: s2n_flush_def)

lemma s2n_send_two_valued:
  assumes sd: "s2n_send E c w buf more0 = Some (r, m, c', w')"
    and wk: "wipe_keeps_sizing E" and tv: "two_valued E cfg c"
  shows "two_valued E cfg c'"
proof (cases "closed c")
  case True
  with sd tv show ?thesis by (simp add: s2n_send_def)
next
  case False
  with sd obtain rf pm c1 w1 where fl: "s2n_flush E c w more0 = Some (rf, pm, c1, w1)"
    by (auto simp: s2n_send_def split: option.splits)
  from s2n_flush_two_valued [OF fl wk tv] have tv1: "two_valued E cfg c1" .
  from adjust_two_valued [OF tv1, of w1]
  have tv2: "two_valued E cfg (snd (adjust_record_size_if_needed E c1 w1))" .
  show ?thesis
  proof (cases rf)
    case (Inl e)
    with sd False fl tv1 show ?thesis by (simp add: s2n_send_def)
  next
    case (Inr u)
    obtain ra c2 where ad: "adjust_record_size_if_needed E c1 w1 = (ra, c2)"
      by (cases "adjust_record_size_if_needed E c1 w1")
    with tv2 have tvc2: "two_valued E cfg c2" by simp
    show ?thesis
    proof (cases "\<exists>mps. ra = Inr () \<and> s2n_record_max_write_payload_size E c2 = Inr mps")
      case False
      with sd \<open>\<not> closed c\<close> fl Inr ad have "c' = c2"
        by (auto simp: s2n_send_def split: sum.splits)
      with tvc2 show ?thesis by simp
    next
      case True
      then obtain mps where "ra = Inr ()" "s2n_record_max_write_payload_size E c2 = Inr mps"
        by blast
      with sd \<open>\<not> closed c\<close> fl Inr ad
      have "send_loop E mps buf 0 False 1 c2 w1 = Some (r, m, c', w')"
        by (simp add: s2n_send_def)
      from send_loop_frame [OF this] tvc2 show ?thesis by (simp add: two_valued_def)
    qed
  qed
qed

lemma run_two_valued:
  "run E ops c w = Some (c', w') \<Longrightarrow> wipe_keeps_sizing E \<Longrightarrow> two_valued E cfg c
     \<Longrightarrow> two_valued E cfg c'"
proof (induction E ops c w rule: run.induct)
  case (1 E c w)
  then show ?case by simp
next
  case (2 E buf ops c w)
  from "2.prems"(1) obtain r m c1 w1 where
    sd: "s2n_send E c w buf 0 = Some (r, m, c1, w1)" and rest: "run E ops c1 w1 = Some (c', w')"
    by (auto split: option.splits)
  from s2n_send_two_valued [OF sd "2.prems"(2,3)] have "two_valued E cfg c1" .
  from "2.IH" [OF sd refl refl refl rest "2.prems"(2) this] show ?case .
next
  case (3 E ops c w)
  obtain r c1 where ad: "adjust_record_size_if_needed E c w = (r, c1)"
    by (cases "adjust_record_size_if_needed E c w")
  with "3.prems"(1) have rest: "run E ops c1 w = Some (c', w')" by simp
  from adjust_two_valued [OF "3.prems"(3), of w] ad have "two_valued E cfg c1" by simp
  from "3.IH" [OF ad [symmetric] rest "3.prems"(2) this] show ?case .
next
  case (4 E ops c w)
  from "4.prems"(1) obtain r m c1 w1 where
    fl: "s2n_flush E c w 0 = Some (r, m, c1, w1)" and rest: "run E ops c1 w1 = Some (c', w')"
    by (auto split: option.splits)
  from s2n_flush_two_valued [OF fl "4.prems"(2,3)] have "two_valued E cfg c1" .
  from "4.IH" [OF fl refl refl refl rest "4.prems"(2) this] show ?case .
next
  case (5 E sc t ops c w)
  then show ?case by simp
qed

text \<open>
  C1. On a connection that starts at \<^verbatim>\<open>S2N_DEFAULT_FRAGMENT_LENGTH\<close>, after any sequence of
  calls of \<^verbatim>\<open>s2n_send\<close>, \<^verbatim>\<open>adjust_record_size_if_needed\<close> and \<^verbatim>\<open>s2n_flush\<close>, whatever they
  returned and however the transport and the clock moved in between, the configuration is
  the one it started with and \<^verbatim>\<open>curr_max_fragment_size\<close> is either the default or
  \<^verbatim>\<open>config.max_fragment_size\<close>. The connection wipe, whose code is missing, is supposed to
  keep the configuration and a legal size.
\<close>

theorem fragment_size_two_valued:
  assumes "wipe_keeps_sizing E"
    and "curr_max_fragment_size c = S2N_DEFAULT_FRAGMENT_LENGTH E"
    and "run E ops c w = Some (c', w')"
  shows "config c' = config c
       \<and> (curr_max_fragment_size c' = S2N_DEFAULT_FRAGMENT_LENGTH E
          \<or> curr_max_fragment_size c' = max_fragment_size (dyn_record_size (config c)))"
  using run_two_valued [OF assms(3,1), of "config c"] assms(2)
  by (simp add: two_valued_def)


text \<open>On the test bed, the boundary test: after 9, 1 and 1 bytes the size is 16384; after
  11 idle milliseconds and one more byte it is 1435 again.\<close>

theorem fragment_size_two_valued_witness:
  "wipe_keeps_sizing ex_env
   \<and> curr_max_fragment_size ex_conn = S2N_DEFAULT_FRAGMENT_LENGTH ex_env
   \<and> map_option (\<lambda>(c, w). curr_max_fragment_size c) (run ex_env ex_ops_grow ex_conn ex_world) = Some 16384
   \<and> map_option (\<lambda>(c, w). curr_max_fragment_size c) (run ex_env ex_ops_idle ex_conn ex_world) = Some 1435"
proof -
  let ?g = "run ex_env ex_ops_grow ex_conn ex_world"
  let ?i = "run ex_env ex_ops_idle ex_conn ex_world"
  have wk: "wipe_keeps_sizing ex_env"
    by (simp add: wipe_keeps_sizing_def two_valued_def ex_defs)
  have d: "curr_max_fragment_size ex_conn = S2N_DEFAULT_FRAGMENT_LENGTH ex_env"
    by (simp add: ex_defs)
  have gv: "map_option (\<lambda>(c, w). curr_max_fragment_size c) ?g = Some 16384"
    by (simp add: eval_defs ex_defs ex_ops_grow_def)
  have iv: "map_option (\<lambda>(c, w). curr_max_fragment_size c) ?i = Some 1435"
    by (simp add: eval_defs ex_defs ex_ops_grow_def ex_ops_idle_def)
  from gv obtain cg wg where g: "?g = Some (cg, wg)" by auto
  from iv obtain ci wi where i: "?i = Some (ci, wi)" by auto
  from fragment_size_two_valued [OF wk d g] fragment_size_two_valued [OF wk d i] wk d gv iv
  show ?thesis by simp
qed

end
